theory Spec2Isabelle
  imports Complex_Main
begin

section \<open>Strings\<close>

text \<open>
  The searcher of \<^verbatim>\<open>code_search_tool.py\<close> works on Python \<^verbatim>\<open>str\<close> values. They are
  modelled as \<^typ>\<open>string\<close>, read as ASCII text: case folding, the whitespace class and the
  word class below are the ASCII parts of \<^verbatim>\<open>str.lower\<close>, \<^verbatim>\<open>str.isspace\<close> and the
  regular-expression class \<^verbatim>\<open>\w\<close>. Text outside ASCII is outside the model.
\<close>

definition code :: "char \<Rightarrow> nat" where
  "code c = of_char c"

definition lower_char :: "char \<Rightarrow> char" where
  "lower_char c = (if 65 \<le> code c \<and> code c \<le> 90 then char_of (code c + 32) else c)"

definition lower :: "string \<Rightarrow> string" where
  "lower s = map lower_char s"

text \<open>\<^verbatim>\<open>str.isspace\<close> on ASCII: TAB, LF, VT, FF, CR, the separators 28..31 and the blank.\<close>

definition is_space :: "char \<Rightarrow> bool" where
  "is_space c = ((9 \<le> code c \<and> code c \<le> 13) \<or> (28 \<le> code c \<and> code c \<le> 32))"

text \<open>The class \<^verbatim>\<open>\w\<close> on ASCII: letters, digits and the underscore.\<close>

definition is_word :: "char \<Rightarrow> bool" where
  "is_word c = ((48 \<le> code c \<and> code c \<le> 57) \<or> (65 \<le> code c \<and> code c \<le> 90)
      \<or> (97 \<le> code c \<and> code c \<le> 122) \<or> code c = 95)"

definition strip :: "string \<Rightarrow> string" where
  "strip s = rev (dropWhile is_space (rev (dropWhile is_space s)))"

definition startswith :: "string \<Rightarrow> string \<Rightarrow> bool" where
  "startswith s p = (take (length p) s = p)"

text \<open>The substring test \<^verbatim>\<open>p in s\<close>.\<close>

fun py_in :: "string \<Rightarrow> string \<Rightarrow> bool" where
  "py_in p [] = (p = [])"
| "py_in p (c # cs) = (startswith (c # cs) p \<or> py_in p cs)"

text \<open>\<^verbatim>\<open>content.split('\n')\<close>: never empty, a trailing newline gives a last empty line.\<close>

fun split_nl :: "string \<Rightarrow> string list" where
  "split_nl [] = [[]]"
| "split_nl (c # cs) =
     (if c = CHR 0x0A then [] # split_nl cs
      else (case split_nl cs of [] \<Rightarrow> [[c]] | l # ls \<Rightarrow> (c # l) # ls))"

text \<open>\<^verbatim>\<open>f.readlines()\<close>: each line keeps its newline, the empty text has no line.\<close>

fun readlines :: "string \<Rightarrow> string list" where
  "readlines [] = []"
| "readlines (c # cs) =
     (if c = CHR 0x0A then [c] # readlines cs
      else (case readlines cs of [] \<Rightarrow> [[c]] | l # ls \<Rightarrow> (c # l) # ls))"

text \<open>
  Python slicing \<^verbatim>\<open>xs[a:b]\<close> and \<^verbatim>\<open>xs[:b]\<close>: a negative index counts from the end, and
  every index is clamped to the list.
\<close>

definition py_index :: "nat \<Rightarrow> int \<Rightarrow> nat" where
  "py_index n i = (if i < 0 then nat (int n + i) else min n (nat i))"

definition py_slice :: "'a list \<Rightarrow> int \<Rightarrow> int \<Rightarrow> 'a list" where
  "py_slice xs a b = drop (py_index (length xs) a) (take (py_index (length xs) b) xs)"

definition py_take :: "'a list \<Rightarrow> int \<Rightarrow> 'a list" where
  "py_take xs b = take (py_index (length xs) b) xs"

section \<open>Regular expressions\<close>

text \<open>
  The patterns the searcher builds are sequences of literals, alternatives of literals,
  the word boundary \<^verbatim>\<open>\b\<close>, greedy \<^verbatim>\<open>*\<close> and \<^verbatim>\<open>+\<close> over a character class, and
  capturing groups around one of these. \<^verbatim>\<open>re.escape(query)\<close> inside a pattern is the
  literal \<open>Lit query\<close>. The matcher explores the candidates in the order of Python's
  backtracking engine: the alternatives from left to right, the longest repetition first.
\<close>

datatype cclass = AnyChar | SpaceC | WordC | WordDotC

datatype atom = Lit string | Alt "string list" | WordB | Star cclass | Plus cclass | Grp atom

fun in_class :: "cclass \<Rightarrow> char \<Rightarrow> bool" where
  "in_class AnyChar c = (c \<noteq> CHR 0x0A)"
| "in_class SpaceC c = is_space c"
| "in_class WordC c = is_word c"
| "in_class WordDotC c = (is_word c \<or> c = CHR ''.'')"

text \<open>A literal at position \<open>i\<close>; \<open>ic\<close> is the flag \<^verbatim>\<open>re.IGNORECASE\<close>.\<close>

definition lit_at :: "bool \<Rightarrow> string \<Rightarrow> nat \<Rightarrow> string \<Rightarrow> bool" where
  "lit_at ic s i l =
     (let t = take (length l) (drop i s) in if ic then lower t = lower l else t = l)"

definition word_before :: "string \<Rightarrow> nat \<Rightarrow> bool" where
  "word_before s i = (0 < i \<and> i \<le> length s \<and> is_word (s ! (i - 1)))"

definition word_after :: "string \<Rightarrow> nat \<Rightarrow> bool" where
  "word_after s i = (i < length s \<and> is_word (s ! i))"

definition word_boundary :: "string \<Rightarrow> nat \<Rightarrow> bool" where
  "word_boundary s i = (word_before s i \<noteq> word_after s i)"

definition cspan :: "cclass \<Rightarrow> string \<Rightarrow> nat \<Rightarrow> nat" where
  "cspan c s i = length (takeWhile (in_class c) (drop i s))"

fun is_grp :: "atom \<Rightarrow> bool" where
  "is_grp (Grp a) = True"
| "is_grp a = False"

text \<open>The end positions one atom can reach from \<open>i\<close>, most preferred first.\<close>

fun atom_ends :: "bool \<Rightarrow> string \<Rightarrow> nat \<Rightarrow> atom \<Rightarrow> nat list" where
  "atom_ends ic s i (Lit l) = (if lit_at ic s i l then [i + length l] else [])"
| "atom_ends ic s i (Alt ls) = map (\<lambda>l. i + length l) (filter (lit_at ic s i) ls)"
| "atom_ends ic s i WordB = (if word_boundary s i then [i] else [])"
| "atom_ends ic s i (Star c) = rev [i ..< Suc (i + cspan c s i)]"
| "atom_ends ic s i (Plus c) = rev [Suc i ..< Suc (i + cspan c s i)]"
| "atom_ends ic s i (Grp a) = atom_ends ic s i a"

text \<open>
  \<open>rmatch\<close> matches a sequence of atoms from position \<open>i\<close> and returns the end of the
  first match in backtracking order with the text of its groups; \<open>rtry\<close> runs through
  the candidate ends of the first atom.
\<close>

fun rmatch :: "bool \<Rightarrow> string \<Rightarrow> atom list \<Rightarrow> nat \<Rightarrow> (nat \<times> string list) option"
  and rtry :: "bool \<Rightarrow> string \<Rightarrow> atom \<Rightarrow> atom list \<Rightarrow> nat \<Rightarrow> nat list \<Rightarrow> (nat \<times> string list) option"
where
  "rmatch ic s [] i = Some (i, [])"
| "rmatch ic s (a # as) i = rtry ic s a as i (atom_ends ic s i a)"
| "rtry ic s a as i [] = None"
| "rtry ic s a as i (e # es) =
     (case rmatch ic s as e of
        Some (k, gs) \<Rightarrow> Some (k, (if is_grp a then [take (e - i) (drop i s)] else []) @ gs)
      | None \<Rightarrow> rtry ic s a as i es)"

text \<open>\<^verbatim>\<open>re.search\<close> tries every start position from the left; \<^verbatim>\<open>re.match\<close> only the first.\<close>

definition re_search :: "bool \<Rightarrow> atom list \<Rightarrow> string \<Rightarrow> bool" where
  "re_search ic r s = list_ex (\<lambda>i. rmatch ic s r i \<noteq> None) [0 ..< Suc (length s)]"

definition re_match :: "atom list \<Rightarrow> string \<Rightarrow> string list option" where
  "re_match r s = map_option snd (rmatch False s r 0)"

section \<open>The file system\<close>

text \<open>
  A file has a name, the size \<^verbatim>\<open>stat\<close> reports (\<open>None\<close> when \<^verbatim>\<open>stat\<close> raises
  \<^verbatim>\<open>OSError\<close>) and the text \<^verbatim>\<open>read\<close> returns (\<open>None\<close> when opening or reading raises).
  A directory lists its files and its named subdirectories in the order \<^verbatim>\<open>os.walk\<close>
  reports them. The root path names nothing, a file or a directory.
\<close>

datatype file_entry = File (fname: string) (fsize: "nat option") (fcontent: "string option")

datatype dir = Dir (dfiles: "file_entry list") (dsubs: "(string \<times> dir) list")

datatype fs_entry = NoEntry | IsFile file_entry | IsDir dir

definition path_exists :: "fs_entry \<Rightarrow> bool" where
  "path_exists e = (e \<noteq> NoEntry)"

text \<open>\<^verbatim>\<open>str(path)\<close> of a relative path: its components joined by the separator.\<close>

fun path_str :: "string list \<Rightarrow> string" where
  "path_str [] = ''.''"
| "path_str [c] = c"
| "path_str (c # cs) = c @ ''/'' @ path_str cs"

text \<open>\<^verbatim>\<open>Path.suffix\<close>: the name from its last dot on, when that dot is inside the name.\<close>

definition rfind_dot :: "string \<Rightarrow> nat option" where
  "rfind_dot n = (case dropWhile (\<lambda>c. c \<noteq> CHR ''.'') (rev n) of
                    [] \<Rightarrow> None | _ # r \<Rightarrow> Some (length r))"

definition suffix :: "string \<Rightarrow> string" where
  "suffix n = (case rfind_dot n of
                 None \<Rightarrow> []
               | Some i \<Rightarrow> if 0 < i \<and> i < length n - 1 then drop i n else [])"

section \<open>Configuration and path filter\<close>

record config =
  code_folder_path :: string
  skip_folders :: "string list"
  file_extensions :: "string list"
  max_file_size_bytes :: real

definition default_skip_folders :: "string list" where
  "default_skip_folders = [''bin'', ''obj'', ''.vs'', ''.git'', ''.svn'', ''packages'',
     ''node_modules'', ''Debug'', ''Release'', ''.vscode'']"

definition default_file_extensions :: "string list" where
  "default_file_extensions = [''.cs'', ''.csx'', ''.cshtml'', ''.razor'', ''.xaml'',
     ''.config'', ''.json'', ''.xml'', ''.yml'', ''.yaml'',
     ''.sql'', ''.md'', ''.txt'', ''.sln'', ''.csproj'']"

text \<open>\<^verbatim>\<open>x or default\<close>: \<^verbatim>\<open>None\<close> and the empty list both give the default.\<close>

definition or_default :: "'a list option \<Rightarrow> 'a list \<Rightarrow> 'a list" where
  "or_default x d = (case x of None \<Rightarrow> d | Some [] \<Rightarrow> d | Some xs \<Rightarrow> xs)"

definition init :: "string \<Rightarrow> string list option \<Rightarrow> string list option \<Rightarrow> real \<Rightarrow> config" where
  "init path skip exts max_file_size_mb =
     \<lparr> code_folder_path = path,
       skip_folders = or_default skip default_skip_folders,
       file_extensions = or_default exts default_file_extensions,
       max_file_size_bytes = max_file_size_mb * 1024 * 1024 \<rparr>"

text \<open>\<open>should_skip_folder\<close> receives the base name of the folder path.\<close>

definition should_skip_folder :: "config \<Rightarrow> string \<Rightarrow> bool" where
  "should_skip_folder cfg folder_name =
     list_ex (\<lambda>skip_pattern. py_in (lower skip_pattern) (lower folder_name)) (skip_folders cfg)"

definition should_include_file :: "config \<Rightarrow> file_entry \<Rightarrow> bool" where
  "should_include_file cfg f =
     (if \<not> list_ex (\<lambda>ext. lower (suffix (fname f)) = lower ext) (file_extensions cfg) then False
      else (case fsize f of
              None \<Rightarrow> False
            | Some n \<Rightarrow> if real n > max_file_size_bytes cfg then False else True))"

section \<open>The walker\<close>

text \<open>
  \<^verbatim>\<open>os.walk\<close> top-down, with the pruning \<^verbatim>\<open>dirs[:] = [d for d in dirs if not skip]\<close> that
  each caller applies before the walk descends: one entry per visited directory, with its
  path relative to the root and its files. A root that is missing or not a directory
  yields no entry (\<^verbatim>\<open>os.walk\<close> ignores the error of listing it).
\<close>

fun walk :: "config \<Rightarrow> string list \<Rightarrow> dir \<Rightarrow> (string list \<times> file_entry list) list"
  and walk_subs :: "config \<Rightarrow> string list \<Rightarrow> (string \<times> dir) list \<Rightarrow> (string list \<times> file_entry list) list"
where
  "walk cfg rp (Dir fs subs) = (rp, fs) # walk_subs cfg rp subs"
| "walk_subs cfg rp [] = []"
| "walk_subs cfg rp ((n, d) # rest) =
     (if should_skip_folder cfg n then [] else walk cfg (rp @ [n]) d) @ walk_subs cfg rp rest"

fun os_walk :: "config \<Rightarrow> fs_entry \<Rightarrow> (string list \<times> file_entry list) list" where
  "os_walk cfg (IsDir d) = walk cfg [] d"
| "os_walk cfg e = []"

section \<open>scan\_codebase\<close>

datatype py_error = FileNotFoundError string

record scan_state =
  file_summary :: "(string \<times> string list) list"
  total_files :: nat

record scan_result =
  summary :: "(string \<times> string list) list"
  total_files_out :: nat
  project_root :: string

text \<open>
  \<^verbatim>\<open>if ext not in file_summary: file_summary[ext] = []\<close> followed by the append; the
  dictionary keeps its keys in insertion order.
\<close>

fun summary_add :: "string \<Rightarrow> string \<Rightarrow> (string \<times> string list) list \<Rightarrow> (string \<times> string list) list" where
  "summary_add ext p [] = [(ext, [p])]"
| "summary_add ext p ((k, v) # rest) =
     (if k = ext then (k, v @ [p]) # rest else (k, v) # summary_add ext p rest)"

fun scan_files :: "config \<Rightarrow> string list \<Rightarrow> file_entry list \<Rightarrow> scan_state \<Rightarrow> scan_state" where
  "scan_files cfg rp [] st = st"
| "scan_files cfg rp (f # fs) st =
     scan_files cfg rp fs
       (if should_include_file cfg f
        then \<lparr> file_summary = summary_add (lower (suffix (fname f))) (path_str (rp @ [fname f]))
                                 (file_summary st),
               total_files = total_files st + 1 \<rparr>
        else st)"

fun scan_dirs :: "config \<Rightarrow> (string list \<times> file_entry list) list \<Rightarrow> scan_state \<Rightarrow> scan_state" where
  "scan_dirs cfg [] st = st"
| "scan_dirs cfg ((rp, fs) # ds) st = scan_dirs cfg ds (scan_files cfg rp fs st)"

definition scan_codebase :: "config \<Rightarrow> fs_entry \<Rightarrow> py_error + scan_result" where
  "scan_codebase cfg fs =
     (if \<not> path_exists fs
      then Inl (FileNotFoundError (''Code folder not found: '' @ code_folder_path cfg))
      else (let st = scan_dirs cfg (os_walk cfg fs) \<lparr> file_summary = [], total_files = 0 \<rparr>
            in Inr \<lparr> summary = file_summary st,
                     total_files_out = total_files st,
                     project_root = code_folder_path cfg \<rparr>))"

section \<open>search\_code\<close>

text \<open>
  A match is a dictionary; the keys \<^verbatim>\<open>context\<close> and \<^verbatim>\<open>context_start_line\<close> are absent
  (\<open>None\<close>) in a file-name match.
\<close>

record match_record =
  m_file :: string
  m_type :: string
  m_match :: string
  m_line_number :: int
  m_context :: "string list option"
  m_context_start_line :: "int option"

definition get_search_patterns :: "string \<Rightarrow> string \<Rightarrow> atom list list" where
  "get_search_patterns query search_type =
     (if search_type = ''content'' then [[Lit query]]
      else if search_type = ''class'' then
        [[WordB, Lit ''class'', Plus SpaceC, Lit query, WordB],
         [WordB, Lit ''interface'', Plus SpaceC, Lit query, WordB],
         [WordB, Lit ''struct'', Plus SpaceC, Lit query, WordB],
         [WordB, Lit ''enum'', Plus SpaceC, Lit query, WordB]]
      else if search_type = ''method'' then
        [[WordB, Lit query, Star SpaceC, Lit ''(''],
         [Grp (Alt [''public'', ''private'', ''protected'', ''internal'', ''static'']),
          Star AnyChar, WordB, Lit query, Star SpaceC, Lit ''('']]
      else if search_type = ''variable'' then
        [[WordB, Lit query, WordB],
         [Grp (Alt [''var'', ''int'', ''string'', ''bool'', ''double'', ''float'', ''decimal'',
                    ''object'']),
          Plus SpaceC, Lit query, WordB]]
      else [])"

text \<open>
  The loop over \<^verbatim>\<open>enumerate(lines, 1)\<close>: \<open>all_lines\<close> is the whole file (for the
  context), \<open>i\<close> the 1-based number of the first line still to test. The first pattern
  that matches a line ends the loop over the patterns, so a line gives at most one match.
\<close>

fun search_lines :: "string \<Rightarrow> string \<Rightarrow> bool \<Rightarrow> int \<Rightarrow> atom list list \<Rightarrow> string list
    \<Rightarrow> int \<Rightarrow> string list \<Rightarrow> match_record list" where
  "search_lines relative_path search_type case_sensitive context_lines pats all_lines i [] = []"
| "search_lines relative_path search_type case_sensitive context_lines pats all_lines i (l # ls) =
     (if list_ex (\<lambda>pattern. re_search (\<not> case_sensitive) pattern l) pats
      then (let start_line = max 0 (i - 1 - context_lines);
                end_line = min (int (length all_lines)) (i + context_lines)
            in [\<lparr> m_file = relative_path, m_type = search_type, m_match = strip l,
                   m_line_number = i,
                   m_context = Some (py_slice all_lines start_line end_line),
                   m_context_start_line = Some (start_line + 1) \<rparr>])
      else [])
     @ search_lines relative_path search_type case_sensitive context_lines pats all_lines (i + 1) ls"

definition search_in_file :: "string \<Rightarrow> string list \<Rightarrow> file_entry \<Rightarrow> string \<Rightarrow> string \<Rightarrow> bool
    \<Rightarrow> int \<Rightarrow> match_record list" where
  "search_in_file content rp f query search_type case_sensitive context_lines =
     (let lines = split_nl content;
          relative_path = path_str (rp @ [fname f])
      in if search_type = ''filename'' then
           (if (case_sensitive \<and> py_in query (fname f))
               \<or> (\<not> case_sensitive \<and> py_in (lower query) (lower (fname f)))
            then [\<lparr> m_file = relative_path, m_type = ''filename'', m_match = fname f,
                    m_line_number = 0, m_context = None, m_context_start_line = None \<rparr>]
            else [])
         else if search_type \<in> set [''content'', ''class'', ''method'', ''variable''] then
           search_lines relative_path search_type case_sensitive context_lines
             (get_search_patterns query search_type) lines 1 lines
         else [])"

text \<open>
  The state of the traversal: the matches so far and, as the record of the reads, the
  files \<^verbatim>\<open>open\<close> was called on, in order.
\<close>

record search_state =
  results :: "match_record list"
  opened :: "(string list \<times> file_entry) list"

fun search_files :: "config \<Rightarrow> string \<Rightarrow> string \<Rightarrow> bool \<Rightarrow> int \<Rightarrow> int
    \<Rightarrow> string list \<Rightarrow> file_entry list \<Rightarrow> search_state \<Rightarrow> search_state" where
  "search_files cfg query search_type case_sensitive max_results context_lines rp [] st = st"
| "search_files cfg query search_type case_sensitive max_results context_lines rp (f # fs) st =
     (if \<not> should_include_file cfg f
      then search_files cfg query search_type case_sensitive max_results context_lines rp fs st
      else (case fcontent f of
              None \<Rightarrow>
                search_files cfg query search_type case_sensitive max_results context_lines rp fs
                  (st\<lparr> opened := opened st @ [(rp, f)] \<rparr>)
            | Some content \<Rightarrow>
                (let st' = \<lparr> results = results st
                               @ search_in_file content rp f query search_type case_sensitive
                                   context_lines,
                             opened = opened st @ [(rp, f)] \<rparr>
                 in if int (length (results st')) \<ge> max_results then st'
                    else search_files cfg query search_type case_sensitive max_results
                           context_lines rp fs st')))"

fun search_dirs :: "config \<Rightarrow> string \<Rightarrow> string \<Rightarrow> bool \<Rightarrow> int \<Rightarrow> int
    \<Rightarrow> (string list \<times> file_entry list) list \<Rightarrow> search_state \<Rightarrow> search_state" where
  "search_dirs cfg query search_type case_sensitive max_results context_lines [] st = st"
| "search_dirs cfg query search_type case_sensitive max_results context_lines ((rp, fs) # ds) st =
     (let st' = search_files cfg query search_type case_sensitive max_results context_lines rp fs st
      in if int (length (results st')) \<ge> max_results then st'
         else search_dirs cfg query search_type case_sensitive max_results context_lines ds st')"

definition search_run :: "config \<Rightarrow> fs_entry \<Rightarrow> string \<Rightarrow> string \<Rightarrow> bool \<Rightarrow> int \<Rightarrow> int
    \<Rightarrow> search_state" where
  "search_run cfg fs query search_type case_sensitive max_results context_lines =
     search_dirs cfg query search_type case_sensitive max_results context_lines
       (os_walk cfg fs) \<lparr> results = [], opened = [] \<rparr>"

record search_result =
  r_query :: string
  r_search_type :: string
  r_total_matches :: int
  r_results :: "match_record list"

text \<open>
  The dictionary \<^verbatim>\<open>search_code\<close> returns. Its handler of an exception of the traversal
  returns \<open>SearchFailed\<close>; nothing in the traversal raises (the walk ignores listing
  errors, \<^verbatim>\<open>stat\<close> and read errors are handled per file), so the model never builds it.
\<close>

datatype search_response = SearchFailed string "match_record list" | SearchOk search_result

definition search_code :: "config \<Rightarrow> fs_entry \<Rightarrow> string \<Rightarrow> string \<Rightarrow> bool \<Rightarrow> int \<Rightarrow> int
    \<Rightarrow> search_response" where
  "search_code cfg fs query search_type case_sensitive max_results context_lines =
     (let st = search_run cfg fs query search_type case_sensitive max_results context_lines
      in SearchOk \<lparr> r_query = query, r_search_type = search_type,
                    r_total_matches = int (length (results st)),
                    r_results = py_take (results st) max_results \<rparr>)"

section \<open>analyze\_project\_structure\<close>

record method_descriptor =
  method_name :: string
  method_file :: string

text \<open>
  The accumulator of the analysis. A Python \<^verbatim>\<open>set\<close> is kept as the list of its elements
  without repetition, in the order of their first insertion; the order in which
  \<^verbatim>\<open>list(a_set)\<close> enumerates is not fixed by Python, so only the elements and their
  multiplicity are meant.
\<close>

record analysis =
  namespaces :: "string list"
  classes :: "string list"
  interfaces :: "string list"
  methods :: "method_descriptor list"
  using_statements :: "string list"
  project_files :: "string list"

definition set_add :: "'a \<Rightarrow> 'a list \<Rightarrow> 'a list" where
  "set_add x xs = (if x \<in> set xs then xs else xs @ [x])"

definition namespace_re :: "atom list" where
  "namespace_re = [Lit ''namespace'', Plus SpaceC, Grp (Plus WordDotC)]"

definition class_re :: "atom list" where
  "class_re = [Star AnyChar, Lit ''class'', Plus SpaceC, Grp (Plus WordC)]"

definition interface_re :: "atom list" where
  "interface_re = [Star AnyChar, Lit ''interface'', Plus SpaceC, Grp (Plus WordC)]"

definition method_re :: "atom list" where
  "method_re = [Star AnyChar, Grp (Alt [''public'', ''private'', ''protected'', ''internal'']),
                Star AnyChar, Plus SpaceC, Grp (Plus WordC), Star SpaceC, Lit ''('']"

text \<open>\<^verbatim>\<open>match.group(n)\<close>, for a group of the pattern.\<close>

definition match_group :: "string list \<Rightarrow> nat \<Rightarrow> string" where
  "match_group gs n = (if 0 < n \<and> n \<le> length gs then gs ! (n - 1) else [])"

text \<open>The body of the loop over the lines of one file.\<close>

definition analyze_line :: "string \<Rightarrow> string \<Rightarrow> analysis \<Rightarrow> analysis" where
  "analyze_line relative_path raw_line a0 =
     (let line = strip raw_line;
          a1 = (if startswith line ''using '' \<and> \<not> startswith line ''using (''
                then a0\<lparr> using_statements := set_add line (using_statements a0) \<rparr> else a0);
          a2 = (case re_match namespace_re line of
                  Some gs \<Rightarrow> a1\<lparr> namespaces := set_add (match_group gs 1) (namespaces a1) \<rparr>
                | None \<Rightarrow> a1);
          a3 = (case re_match class_re line of
                  Some gs \<Rightarrow> a2\<lparr> classes := set_add (match_group gs 1) (classes a2) \<rparr>
                | None \<Rightarrow> a2);
          a4 = (case re_match interface_re line of
                  Some gs \<Rightarrow> a3\<lparr> interfaces := set_add (match_group gs 1) (interfaces a3) \<rparr>
                | None \<Rightarrow> a3)
      in (case re_match method_re line of
            Some gs \<Rightarrow>
              if length (methods a4) < 100 then
                (let name = match_group gs 2
                 in if name \<notin> set [''if'', ''for'', ''while'', ''switch'', ''using'']
                    then a4\<lparr> methods := methods a4
                             @ [\<lparr> method_name = name, method_file = relative_path \<rparr>] \<rparr>
                    else a4)
              else a4
          | None \<Rightarrow> a4))"

fun analyze_lines :: "string \<Rightarrow> string list \<Rightarrow> analysis \<Rightarrow> analysis" where
  "analyze_lines relative_path [] a = a"
| "analyze_lines relative_path (l # ls) a =
     analyze_lines relative_path ls (analyze_line relative_path l a)"

text \<open>A file that cannot be read is skipped: the handler of \<open>analyze_cs_file\<close> passes.\<close>

definition analyze_cs_file :: "string list \<Rightarrow> file_entry \<Rightarrow> analysis \<Rightarrow> analysis" where
  "analyze_cs_file rp f a =
     (case fcontent f of
        None \<Rightarrow> a
      | Some content \<Rightarrow> analyze_lines (path_str (rp @ [fname f])) (split_nl content) a)"

fun analyze_files :: "string list \<Rightarrow> file_entry list \<Rightarrow> analysis \<Rightarrow> analysis" where
  "analyze_files rp [] a = a"
| "analyze_files rp (f # fs) a =
     analyze_files rp fs
       (if lower (suffix (fname f)) = ''.cs'' then analyze_cs_file rp f a
        else if lower (suffix (fname f)) \<in> set [''.csproj'', ''.sln'']
        then a\<lparr> project_files := project_files a @ [path_str (rp @ [fname f])] \<rparr>
        else a)"

fun analyze_dirs :: "(string list \<times> file_entry list) list \<Rightarrow> analysis \<Rightarrow> analysis" where
  "analyze_dirs [] a = a"
| "analyze_dirs ((rp, fs) # ds) a = analyze_dirs ds (analyze_files rp fs a)"

definition empty_analysis :: analysis where
  "empty_analysis = \<lparr> namespaces = [], classes = [], interfaces = [], methods = [],
                        using_statements = [], project_files = [] \<rparr>"

text \<open>The accumulator at the end of the traversal, before the export.\<close>

definition analyze_accumulate :: "config \<Rightarrow> fs_entry \<Rightarrow> analysis" where
  "analyze_accumulate cfg fs = analyze_dirs (os_walk cfg fs) empty_analysis"

text \<open>
  The exported dictionary: the sets as lists, the methods cut to the first 50. The handler
  of an exception of the traversal stores an \<^verbatim>\<open>error\<close> key that is not exported, and
  nothing in the traversal raises, so the model has no such branch. No file is tested with
  \<open>should_include_file\<close> here: the source selects by the three suffixes only.
\<close>

definition analyze_project_structure :: "config \<Rightarrow> fs_entry \<Rightarrow> analysis" where
  "analyze_project_structure cfg fs =
     (let a = analyze_accumulate cfg fs
      in \<lparr> namespaces = namespaces a, classes = classes a, interfaces = interfaces a,
           methods = py_take (methods a) 50,
           using_statements = using_statements a, project_files = project_files a \<rparr>)"

section \<open>get\_file\_content\<close>

datatype error_dict = FileNotFound string | FailedToRead

record file_content =
  fc_file :: string
  fc_total_lines :: int
  fc_showing_lines :: int
  fc_truncated :: bool
  fc_content :: "string list"
  fc_raw_content :: string

function digits :: "nat \<Rightarrow> string" where
  "digits n = (if n < 10 then [char_of (48 + n)] else digits (n div 10) @ [char_of (48 + n mod 10)])"
  by pat_completeness auto
termination
  by (relation "measure id") auto

text \<open>The format \<^verbatim>\<open>{i:4d}\<close> of a positive number: right-aligned in four columns.\<close>

definition fmt4d :: "nat \<Rightarrow> string" where
  "fmt4d i = replicate (4 - length (digits i)) CHR '' '' @ digits i"

definition rstrip :: "string \<Rightarrow> string" where
  "rstrip s = rev (dropWhile is_space (rev s))"

fun numbered :: "nat \<Rightarrow> string list \<Rightarrow> string list" where
  "numbered i [] = []"
| "numbered i (l # ls) = (fmt4d i @ '': '' @ rstrip l) # numbered (Suc i) ls"

text \<open>
  \<open>target\<close> is the entry the path \<^verbatim>\<open>code_folder_path / file_path\<close> names. Every
  failure is returned as a dictionary with an \<^verbatim>\<open>error\<close> key; opening a directory raises
  and ends in the handler like a failed read.
\<close>

definition get_file_content :: "fs_entry \<Rightarrow> string \<Rightarrow> int \<Rightarrow> error_dict + file_content" where
  "get_file_content target file_path max_lines =
     (if \<not> path_exists target then Inl (FileNotFound (''File not found: '' @ file_path))
      else (case target of
              IsFile f \<Rightarrow>
                (case fcontent f of
                   None \<Rightarrow> Inl FailedToRead
                 | Some text \<Rightarrow>
                     (let lines = readlines text;
                          total_lines = int (length lines);
                          limited_lines = py_take lines max_lines
                      in Inr \<lparr> fc_file = file_path,
                               fc_total_lines = total_lines,
                               fc_showing_lines = int (length limited_lines),
                               fc_truncated = (total_lines > max_lines),
                               fc_content = numbered 1 limited_lines,
                               fc_raw_content = concat limited_lines \<rparr>))
            | _ \<Rightarrow> Inl FailedToRead))"

section \<open>Notions for the properties\<close>

text \<open>The bounds and the absence of repetitions that the analysis keeps while it accumulates.\<close>

definition analysis_inv :: "analysis \<Rightarrow> bool" where
  "analysis_inv a = (length (methods a) \<le> 100 \<and> distinct (namespaces a)
      \<and> distinct (classes a) \<and> distinct (interfaces a))"

text \<open>The matches one opened file contributes: none when reading it raised.\<close>

definition file_matches :: "string \<Rightarrow> string \<Rightarrow> bool \<Rightarrow> int \<Rightarrow> string list \<times> file_entry
    \<Rightarrow> match_record list" where
  "file_matches query search_type case_sensitive context_lines pf =
     (case fcontent (snd pf) of
        None \<Rightarrow> []
      | Some content \<Rightarrow>
          search_in_file content (fst pf) (snd pf) query search_type case_sensitive context_lines)"

text \<open>The files of a list of walked directories, each with the path of its directory.\<close>

definition files_of :: "(string list \<times> file_entry list) list \<Rightarrow> (string list \<times> file_entry) list" where
  "files_of ds = concat (map (\<lambda>(rp, fs). map (Pair rp) fs) ds)"

text \<open>All files the pruned walk reaches.\<close>

definition walk_files :: "config \<Rightarrow> fs_entry \<Rightarrow> (string list \<times> file_entry) list" where
  "walk_files cfg fs = files_of (os_walk cfg fs)"

text \<open>The keys \<^verbatim>\<open>results\<close> and \<^verbatim>\<open>total_matches\<close> of a response; the error dictionary has no total.\<close>

fun response_results :: "search_response \<Rightarrow> match_record list" where
  "response_results (SearchOk r) = r_results r"
| "response_results (SearchFailed e rs) = rs"

fun response_total :: "search_response \<Rightarrow> int option" where
  "response_total (SearchOk r) = Some (r_total_matches r)"
| "response_total (SearchFailed e rs) = None"

text \<open>The state in which \<open>search_run\<close> starts.\<close>

definition init_state :: search_state where
  "init_state = \<lparr> results = [], opened = [] \<rparr>"

text \<open>The files \<open>analyze_files\<close> records by path only.\<close>

definition is_project_file :: "file_entry \<Rightarrow> bool" where
  "is_project_file f = (lower (suffix (fname f)) \<noteq> ''.cs''
      \<and> lower (suffix (fname f)) \<in> set [''.csproj'', ''.sln''])"

text \<open>
  The context window as the specification words it: the lines with the 1-based numbers
  \<open>max 1 (i - c)\<close> to \<open>min L (i + c)\<close>, in order.
\<close>

definition spec_context :: "string list \<Rightarrow> int \<Rightarrow> int \<Rightarrow> string list" where
  "spec_context all_lines i c =
     map (\<lambda>k. all_lines ! nat (k - 1)) [max 1 (i - c) .. min (int (length all_lines)) (i + c)]"

text \<open>
  The tree without the subdirectories whose name matches a skip fragment, at every depth:
  two trees with the same pruned tree differ only under such directories.
\<close>

fun prune :: "config \<Rightarrow> dir \<Rightarrow> dir"
  and prune_subs :: "config \<Rightarrow> (string \<times> dir) list \<Rightarrow> (string \<times> dir) list"
where
  "prune cfg (Dir fs subs) = Dir fs (prune_subs cfg subs)"
| "prune_subs cfg [] = []"
| "prune_subs cfg ((n, d) # rest) =
     (if should_skip_folder cfg n then prune_subs cfg rest
      else (n, prune cfg d) # prune_subs cfg rest)"

text \<open>The path string each operation reports for a walked file.\<close>

definition rel_path :: "string list \<times> file_entry \<Rightarrow> string" where
  "rel_path pf = path_str (fst pf @ [fname (snd pf)])"

text \<open>The paths a scan lists, under any extension; a scan that raised lists none.\<close>

definition listed :: "(string \<times> string list) list \<Rightarrow> string set" where
  "listed s = set (concat (map snd s))"

fun listed_paths :: "py_error + scan_result \<Rightarrow> string set" where
  "listed_paths (Inr r) = listed (summary r)"
| "listed_paths (Inl e) = {}"

text \<open>
  The class mode as the specification words it: one of the keywords at a word boundary,
  immediately followed by whitespace and then the literal query, which ends at a word
  boundary. Literals are compared without regard to case unless the search is
  case-sensitive.
\<close>

definition class_keywords :: "string list" where
  "class_keywords = [''class'', ''interface'', ''struct'', ''enum'']"

definition spec_class_line :: "bool \<Rightarrow> string \<Rightarrow> string \<Rightarrow> bool" where
  "spec_class_line case_sensitive query line =
     (\<exists>kw \<in> set class_keywords. \<exists>i j.
        word_boundary line i \<and> lit_at (\<not> case_sensitive) line i kw
        \<and> i + length kw < j \<and> j \<le> length line
        \<and> (\<forall>k. i + length kw \<le> k \<and> k < j \<longrightarrow> is_space (line ! k))
        \<and> lit_at (\<not> case_sensitive) line j query
        \<and> word_boundary line (j + length query))"

text \<open>A sequence of atoms matches from position \<open>i\<close>.\<close>

definition matches_at :: "bool \<Rightarrow> string \<Rightarrow> atom list \<Rightarrow> nat \<Rightarrow> bool" where
  "matches_at ic s r i = (rmatch ic s r i \<noteq> None)"

section \<open>Example inputs\<close>

text \<open>A searcher whose size ceiling is 16 bytes, over a root with one larger C\# file.\<close>

definition small_cfg :: config where
  "small_cfg = init ''/proj'' None None (1 / 65536)"

definition big_file :: file_entry where
  "big_file = File ''Big.cs'' (Some 20) (Some ''public class Big { }'')"

definition big_fs :: fs_entry where
  "big_fs = IsDir (Dir [big_file] [])"

text \<open>A searcher with the default settings apart from the skip list \<^verbatim>\<open>['bin']\<close>.\<close>

definition bin_cfg :: config where
  "bin_cfg = init ''/proj'' (Some [''bin'']) None 10"

definition two_line_file :: file_entry where
  "two_line_file = File ''a.cs'' (Some 4) (Some ''a\<newline>b\<newline>'')"

text \<open>An accumulator that already holds 100 method descriptors.\<close>

definition full_analysis :: analysis where
  "full_analysis =
     empty_analysis\<lparr> methods := replicate 100 \<lparr> method_name = ''Run'', method_file = ''a.cs'' \<rparr> \<rparr>"

text \<open>A root with matches for \<^verbatim>\<open>Foo\<close> in three files, two of them in the first file.\<close>

definition file_A :: file_entry where
  "file_A = File ''A.cs'' (Some 20) (Some ''class Foo\<newline>class Foo2'')"

definition file_B :: file_entry where
  "file_B = File ''B.cs'' (Some 9) (Some ''class Foo'')"

definition file_C :: file_entry where
  "file_C = File ''C.cs'' (Some 9) (Some ''class Foo'')"

definition three_fs :: fs_entry where
  "three_fs = IsDir (Dir [file_A, file_B] [(''sub'', Dir [file_C] [])])"

text \<open>A file of ten lines.\<close>

definition ten_lines :: string where
  "ten_lines = ''match\<newline>2\<newline>3\<newline>4\<newline>5\<newline>6\<newline>7\<newline>8\<newline>9\<newline>10''"

definition ten_file :: file_entry where
  "ten_file = File ''ten.txt'' (Some 24) (Some ten_lines)"

text \<open>
  The root of the scenario: \<^verbatim>\<open>src/Foo.cs\<close> declares a namespace and a class,
  \<^verbatim>\<open>bin/Generated.cs\<close> declares the class \<^verbatim>\<open>Bar\<close>.
\<close>

definition scenario_src :: dir where
  "scenario_src = Dir [File ''Foo.cs'' (Some 58)
     (Some ''namespace App.Models\<newline>{\<newline>    public class Foo\<newline>    {\<newline>    }\<newline>}\<newline>'')] []"

definition scenario_dir :: dir where
  "scenario_dir = Dir [] [(''src'', scenario_src),
                          (''bin'', Dir [File ''Generated.cs'' (Some 9) (Some ''class Bar'')] [])]"

definition scenario_fs :: fs_entry where
  "scenario_fs = IsDir scenario_dir"

text \<open>A project with a project file, a source file with one method and a build folder.\<close>

definition svc_file :: file_entry where
  "svc_file = File ''Svc.cs'' (Some 17) (Some ''public void Run()'')"

definition project_clean :: dir where
  "project_clean = Dir [File ''App.csproj'' (Some 10) (Some ''<Project/>'')]
                       [(''src'', Dir [svc_file] [])]"

definition project_dir :: dir where
  "project_dir = Dir [File ''App.csproj'' (Some 10) (Some ''<Project/>'')]
                     [(''src'', Dir [svc_file] []),
                      (''bin'', Dir [File ''Gen.cs'' (Some 9) (Some ''class Bar'')] [])]"

definition svc_method :: method_descriptor where
  "svc_method = \<lparr> method_name = ''Run'', method_file = ''src/Svc.cs'' \<rparr>"

text \<open>The two files of the class-mode scenario.\<close>

definition repo_file :: file_entry where
  "repo_file = File ''IUserRepository.cs'' (Some 32) (Some ''public interface IUserRepository'')"

definition thing_file :: file_entry where
  "thing_file = File ''Thing.cs'' (Some 31) (Some ''var myRepository = new Thing();'')"

definition repo_fs :: fs_entry where
  "repo_fs = IsDir (Dir [repo_file, thing_file] [])"

section \<open>Helper facts about slices and lines\<close>

lemma concat_readlines: "concat (readlines t) = t"
  by (induction t) (auto split: list.splits)

lemma py_take_all: "int (length xs) \<le> n \<Longrightarrow> py_take xs n = xs"
  by (auto simp: py_take_def py_index_def)

lemma py_take_nil: "py_take [] n = []"
  by (simp add: py_take_def)

section \<open>A root path that does not exist\<close>

text \<open>
  Claim C1. A root path that does not exist makes \<open>scan_codebase\<close> raise
  \<^verbatim>\<open>FileNotFoundError\<close>. \<open>search_code\<close> and \<open>analyze_project_structure\<close> do not test
  the root: the walk over a missing root yields nothing, so the search returns a result
  with no match and the analysis returns the empty analysis, and neither reports an error.
\<close>

theorem missing_root_scan_raises_search_analyze_empty:
  "scan_codebase cfg NoEntry
     = Inl (FileNotFoundError (''Code folder not found: '' @ code_folder_path cfg))
   \<and> search_code cfg NoEntry query search_type case_sensitive max_results context_lines
     = SearchOk \<lparr> r_query = query, r_search_type = search_type,
                  r_total_matches = 0, r_results = [] \<rparr>
   \<and> analyze_project_structure cfg NoEntry = empty_analysis"
  by (simp add: scan_codebase_def path_exists_def search_code_def search_run_def py_take_def
        analyze_project_structure_def analyze_accumulate_def empty_analysis_def)

section \<open>Admission of files\<close>

text \<open>
  Claim C2. With a size ceiling of 16 bytes, the 20-byte file \<^verbatim>\<open>Big.cs\<close> is not admitted
  by \<open>should_include_file\<close>, and \<open>scan_codebase\<close> and \<open>search_code\<close> leave it out; but
  \<open>analyze_project_structure\<close> never calls \<open>should_include_file\<close> and records the class
  the file declares.
\<close>

theorem analyze_reads_file_above_ceiling:
  "\<not> should_include_file small_cfg big_file
   \<and> scan_codebase small_cfg big_fs
       = Inr \<lparr> summary = [], total_files_out = 0, project_root = ''/proj'' \<rparr>
   \<and> search_code small_cfg big_fs ''Big'' ''content'' False 20 3
       = SearchOk \<lparr> r_query = ''Big'', r_search_type = ''content'',
                    r_total_matches = 0, r_results = [] \<rparr>
   \<and> classes (analyze_project_structure small_cfg big_fs) = [''Big'']"
  by code_simp

section \<open>get\_file\_content\<close>

text \<open>
  Claim C8. For a readable file whose text has \<open>T\<close> lines and a \<open>max_lines\<close> of at least
  \<open>T\<close>, \<open>get_file_content\<close> returns a result that is not truncated, shows \<open>T\<close> lines and
  reports \<open>T\<close> total lines; the raw content is the whole text.
\<close>

theorem get_file_content_roundtrip:
  assumes "fcontent f = Some content" and "int (length (readlines content)) \<le> max_lines"
  shows "\<exists>r. get_file_content (IsFile f) file_path max_lines = Inr r
           \<and> fc_truncated r = False
           \<and> fc_showing_lines r = int (length (readlines content))
           \<and> fc_total_lines r = int (length (readlines content))
           \<and> fc_raw_content r = content"
  using assms
  by (simp add: get_file_content_def path_exists_def Let_def py_take_all concat_readlines)

theorem get_file_content_roundtrip_witness:
  "fcontent two_line_file = Some ''a\<newline>b\<newline>''
   \<and> int (length (readlines ''a\<newline>b\<newline>'')) \<le> 2
   \<and> (\<exists>r. get_file_content (IsFile two_line_file) ''a.cs'' 2 = Inr r
           \<and> fc_truncated r = False \<and> fc_showing_lines r = 2 \<and> fc_total_lines r = 2
           \<and> fc_raw_content r = ''a\<newline>b\<newline>'')"
proof -
  have a: "fcontent two_line_file = Some ''a\<newline>b\<newline>''"
    by (simp add: two_line_file_def)
  have b: "int (length (readlines ''a\<newline>b\<newline>'')) \<le> 2"
    by simp
  from get_file_content_roundtrip [OF a b, of "''a.cs''"] a b show ?thesis
    by simp
qed

section \<open>A search type outside the five modes\<close>






section \<open>Bounds of the analysis\<close>

lemma distinct_set_add: "distinct xs \<Longrightarrow> distinct (set_add x xs)"
  by (simp add: set_add_def)

lemma methods_analyze_line:
  "methods (analyze_line p l a) = methods a
   \<or> (length (methods a) < 100 \<and> (\<exists>m. methods (analyze_line p l a) = methods a @ [m]))"
  by (auto simp: analyze_line_def Let_def split: option.splits)

lemma namespaces_analyze_line:
  "namespaces (analyze_line p l a) =
     (case re_match namespace_re (strip l) of
        Some gs \<Rightarrow> set_add (match_group gs 1) (namespaces a) | None \<Rightarrow> namespaces a)"
  by (simp add: analyze_line_def Let_def split: option.splits)

lemma classes_analyze_line:
  "classes (analyze_line p l a) =
     (case re_match class_re (strip l) of
        Some gs \<Rightarrow> set_add (match_group gs 1) (classes a) | None \<Rightarrow> classes a)"
  by (simp add: analyze_line_def Let_def split: option.splits)

lemma interfaces_analyze_line:
  "interfaces (analyze_line p l a) =
     (case re_match interface_re (strip l) of
        Some gs \<Rightarrow> set_add (match_group gs 1) (interfaces a) | None \<Rightarrow> interfaces a)"
  by (simp add: analyze_line_def Let_def split: option.splits)

lemma methods_step_le:
  "length (methods a) \<le> 100 \<Longrightarrow> length (methods (analyze_line p l a)) \<le> 100"
  using methods_analyze_line [of p l a] by auto

lemma methods_step_full:
  "100 \<le> length (methods a) \<Longrightarrow> methods (analyze_line p l a) = methods a"
  using methods_analyze_line [of p l a] by auto

lemma inv_analyze_line: "analysis_inv a \<Longrightarrow> analysis_inv (analyze_line p l a)"
  unfolding analysis_inv_def
  using methods_step_le [of a p l]
  by (auto simp: distinct_set_add namespaces_analyze_line classes_analyze_line
        interfaces_analyze_line split: option.splits)

lemma inv_analyze_lines: "analysis_inv a \<Longrightarrow> analysis_inv (analyze_lines p ls a)"
  by (induction ls arbitrary: a) (simp_all add: inv_analyze_line)

lemma inv_analyze_cs_file: "analysis_inv a \<Longrightarrow> analysis_inv (analyze_cs_file rp f a)"
  by (simp add: analyze_cs_file_def inv_analyze_lines split: option.splits)

lemma inv_project_file:
  "analysis_inv a \<Longrightarrow> analysis_inv (a\<lparr> project_files := ps \<rparr>)"
  by (simp add: analysis_inv_def)

lemma inv_analyze_files: "analysis_inv a \<Longrightarrow> analysis_inv (analyze_files rp fs a)"
  by (induction fs arbitrary: a) (simp_all add: inv_analyze_cs_file inv_project_file)

lemma inv_analyze_dirs: "analysis_inv a \<Longrightarrow> analysis_inv (analyze_dirs ds a)"
  by (induction ds arbitrary: a) (auto simp: inv_analyze_files)

lemma inv_empty: "analysis_inv empty_analysis"
  by (simp add: analysis_inv_def empty_analysis_def)

lemma inv_accumulate: "analysis_inv (analyze_accumulate cfg fs)"
  unfolding analyze_accumulate_def by (rule inv_analyze_dirs [OF inv_empty])

text \<open>
  Claim C7. The accumulated method list never holds more than 100 descriptors: the
  accumulator at the end of any traversal has at most 100, one line of a file keeps the
  bound, and with 100 descriptors present a further line leaves the list as it is (the
  step returns an analysis, there is no error). The exported method list has at most 50
  entries, and the exported namespaces, classes and interfaces have no repeated entry.
\<close>

theorem analyze_bounds:
  "length (methods (analyze_accumulate cfg fs)) \<le> 100
   \<and> length (methods (analyze_project_structure cfg fs)) \<le> 50
   \<and> distinct (namespaces (analyze_project_structure cfg fs))
   \<and> distinct (classes (analyze_project_structure cfg fs))
   \<and> distinct (interfaces (analyze_project_structure cfg fs))
   \<and> (length (methods a) \<le> 100 \<longrightarrow> length (methods (analyze_line p l a)) \<le> 100)
   \<and> (100 \<le> length (methods a) \<longrightarrow> methods (analyze_line p l a) = methods a)"
  using inv_accumulate [of cfg fs] methods_step_le [of a p l] methods_step_full [of a p l]
  by (simp add: analysis_inv_def analyze_project_structure_def Let_def py_take_def py_index_def)

lemma full_len: "length (methods full_analysis) = 100"
  by (simp add: full_analysis_def)

theorem analyze_bounds_witness:
  "length (methods full_analysis) \<le> 100
   \<and> 100 \<le> length (methods full_analysis)
   \<and> length (methods (analyze_line ''a.cs'' ''    public void Run()'' full_analysis)) \<le> 100
   \<and> methods (analyze_line ''a.cs'' ''    public void Run()'' full_analysis) = methods full_analysis
   \<and> length (methods (analyze_project_structure bin_cfg NoEntry)) \<le> 50"
  using analyze_bounds [of bin_cfg NoEntry full_analysis "''a.cs''" "''    public void Run()''"]
  by (simp add: full_len)

section \<open>The search loop\<close>

lemma results_files:
  "results st = concat (map (file_matches q ty cs cx) (opened st))
   \<Longrightarrow> results (search_files cfg q ty cs mx cx rp fs st)
       = concat (map (file_matches q ty cs cx) (opened (search_files cfg q ty cs mx cx rp fs st)))"
  by (induction fs arbitrary: st) (auto simp: file_matches_def Let_def split: option.splits)

lemma results_dirs:
  "results st = concat (map (file_matches q ty cs cx) (opened st))
   \<Longrightarrow> results (search_dirs cfg q ty cs mx cx ds st)
       = concat (map (file_matches q ty cs cx) (opened (search_dirs cfg q ty cs mx cx ds st)))"
  by (induction ds arbitrary: st) (auto simp: results_files Let_def)

lemma results_run:
  "results (search_run cfg fs q ty cs mx cx)
     = concat (map (file_matches q ty cs cx) (opened (search_run cfg fs q ty cs mx cx)))"
  unfolding search_run_def by (rule results_dirs) simp

text \<open>
  Claim C9. The field \<open>total_matches\<close> is the number of matches accumulated over all
  files the search opened, counted before the final cut to \<open>max_results\<close>, and the
  returned results are that accumulated list cut to \<open>max_results\<close>. The cap is tested
  after a whole file only: with \<open>max_results = 1\<close> and a first file with two matching
  lines, \<open>total_matches\<close> is 2 while one result is returned.
\<close>

theorem total_matches_counts_all:
  "search_code cfg fs query search_type case_sensitive max_results context_lines
     = SearchOk \<lparr> r_query = query, r_search_type = search_type,
         r_total_matches = int (length (concat (map
            (file_matches query search_type case_sensitive context_lines)
            (opened (search_run cfg fs query search_type case_sensitive max_results
               context_lines))))),
         r_results = py_take (concat (map
            (file_matches query search_type case_sensitive context_lines)
            (opened (search_run cfg fs query search_type case_sensitive max_results
               context_lines)))) max_results \<rparr>
   \<and> response_total (search_code bin_cfg three_fs ''Foo'' ''content'' False 1 3) = Some 2
   \<and> length (response_results (search_code bin_cfg three_fs ''Foo'' ''content'' False 1 3)) = 1"
proof -
  have "response_total (search_code bin_cfg three_fs ''Foo'' ''content'' False 1 3) = Some 2
      \<and> length (response_results (search_code bin_cfg three_fs ''Foo'' ''content'' False 1 3)) = 1"
    by code_simp
  then show ?thesis
    using results_run [of cfg fs query search_type case_sensitive max_results context_lines]
    by (simp add: search_code_def Let_def)
qed

lemma search_files_cut:
  "should_include_file cfg f \<Longrightarrow> fcontent f = Some c
   \<Longrightarrow> mx \<le> int (length (results (search_files cfg q ty cs mx cx rp (fs1 @ [f]) st)))
   \<Longrightarrow> search_files cfg q ty cs mx cx rp (fs1 @ f # fs2) st
       = search_files cfg q ty cs mx cx rp (fs1 @ [f]) st"
  by (induction fs1 arbitrary: st) (auto simp: Let_def split: option.splits)

lemma search_dirs_cut:
  "should_include_file cfg f \<Longrightarrow> fcontent f = Some c
   \<Longrightarrow> mx \<le> int (length (results (search_dirs cfg q ty cs mx cx (ds1 @ [(rp, fs1 @ [f])]) st)))
   \<Longrightarrow> search_dirs cfg q ty cs mx cx (ds1 @ (rp, fs1 @ f # fs2) # ds2) st
       = search_dirs cfg q ty cs mx cx (ds1 @ [(rp, fs1 @ [f])]) st"
proof (induction ds1 arbitrary: st)
  case Nil
  then show ?case
    using search_files_cut [of cfg f c mx q ty cs cx rp fs1 st fs2]
    by (auto simp: Let_def split: if_splits)
next
  case (Cons d ds1)
  then show ?case
    by (cases d) (auto simp: Let_def)
qed

lemma opened_files:
  "set (opened (search_files cfg q ty cs mx cx rp fs st)) \<subseteq> set (opened st) \<union> Pair rp ` set fs"
proof (induction fs arbitrary: st)
  case Nil
  show ?case by simp
next
  case (Cons f fs)
  show ?case
  proof (cases "should_include_file cfg f")
    case False
    then show ?thesis using Cons [of st] by auto
  next
    case True
    show ?thesis
    proof (cases "fcontent f")
      case None
      then show ?thesis
        using True Cons [of "st\<lparr> opened := opened st @ [(rp, f)] \<rparr>"] by auto
    next
      case (Some c)
      then show ?thesis
        using True Cons [of "\<lparr> results = results st @ search_in_file c rp f q ty cs cx,
                               opened = opened st @ [(rp, f)] \<rparr>"]
        by (auto simp: Let_def)
    qed
  qed
qed

lemma opened_dirs:
  "set (opened (search_dirs cfg q ty cs mx cx ds st))
     \<subseteq> set (opened st) \<union> (\<Union>(rp, fs) \<in> set ds. Pair rp ` set fs)"
proof (induction ds arbitrary: st)
  case Nil
  then show ?case by simp
next
  case (Cons d ds)
  obtain rp fs where d: "d = (rp, fs)" by (cases d)
  show ?case
    using Cons [of "search_files cfg q ty cs mx cx rp fs st"] opened_files [of cfg q ty cs mx cx rp fs st]
    by (auto simp: d Let_def)
qed


lemma length_py_take: "0 \<le> n \<Longrightarrow> int (length (py_take xs n)) \<le> n"
  by (auto simp: py_take_def py_index_def)

lemma set_files_of: "set (files_of ds) = (\<Union>(rp, fs) \<in> set ds. Pair rp ` set fs)"
  by (auto simp: files_of_def)

lemma opened_dirs_files_of:
  "set (opened (search_dirs cfg q ty cs mx cx ds st)) \<subseteq> set (opened st) \<union> set (files_of ds)"
  unfolding set_files_of by (rule opened_dirs)

lemma search_code_capped:
  "0 \<le> mx \<Longrightarrow> int (length (response_results (search_code cfg fs q ty cs mx cx))) \<le> mx"
  by (simp add: search_code_def Let_def length_py_take)

lemma search_run_cut:
  assumes "os_walk cfg fs = ds1 @ (rp, fs1 @ f # fs2) # ds2"
    and "should_include_file cfg f" and "fcontent f \<noteq> None"
    and "mx \<le> int (length (results (search_dirs cfg q ty cs mx cx (ds1 @ [(rp, fs1 @ [f])]) init_state)))"
  shows "search_run cfg fs q ty cs mx cx
           = search_dirs cfg q ty cs mx cx (ds1 @ [(rp, fs1 @ [f])]) init_state"
    and "set (opened (search_run cfg fs q ty cs mx cx)) \<subseteq> set (files_of (ds1 @ [(rp, fs1 @ [f])]))"
proof -
  from assms(3) obtain c where c: "fcontent f = Some c" by auto
  show eq: "search_run cfg fs q ty cs mx cx
           = search_dirs cfg q ty cs mx cx (ds1 @ [(rp, fs1 @ [f])]) init_state"
    using search_dirs_cut [OF assms(2) c assms(4)]
    by (simp add: search_run_def assms(1) init_state_def)
  show "set (opened (search_run cfg fs q ty cs mx cx)) \<subseteq> set (files_of (ds1 @ [(rp, fs1 @ [f])]))"
    unfolding eq
    using opened_dirs_files_of [of cfg q ty cs mx cx "ds1 @ [(rp, fs1 @ [f])]" init_state]
    by (simp add: init_state_def)
qed

lemma total_scan_files:
  "total_files (scan_files cfg rp fs st) = total_files st + length (filter (should_include_file cfg) fs)"
  by (induction fs arbitrary: st) auto

lemma total_scan_dirs:
  "total_files (scan_dirs cfg ds st)
     = total_files st + length (filter (\<lambda>pf. should_include_file cfg (snd pf)) (files_of ds))"
  by (induction ds arbitrary: st) (auto simp: total_scan_files files_of_def filter_map comp_def)

lemma scan_counts_all:
  "path_exists fs \<Longrightarrow>
   \<exists>r. scan_codebase cfg fs = Inr r
       \<and> total_files_out r = length (filter (\<lambda>pf. should_include_file cfg (snd pf)) (walk_files cfg fs))"
  by (simp add: scan_codebase_def Let_def total_scan_dirs walk_files_def)

lemma project_files_line: "project_files (analyze_line p l a) = project_files a"
  by (simp add: analyze_line_def Let_def split: option.splits)

lemma project_files_lines: "project_files (analyze_lines p ls a) = project_files a"
  by (induction ls arbitrary: a) (simp_all add: project_files_line)

lemma project_files_cs: "project_files (analyze_cs_file rp f a) = project_files a"
  by (simp add: analyze_cs_file_def project_files_lines split: option.splits)

lemma project_files_files:
  "project_files (analyze_files rp fs a)
     = project_files a @ map (\<lambda>f. path_str (rp @ [fname f])) (filter is_project_file fs)"
  by (induction fs arbitrary: a) (auto simp: project_files_cs is_project_file_def)

lemma project_files_dirs:
  "project_files (analyze_dirs ds a)
     = project_files a @ map (\<lambda>pf. path_str (fst pf @ [fname (snd pf)]))
                             (filter (\<lambda>pf. is_project_file (snd pf)) (files_of ds))"
  by (induction ds arbitrary: a)
     (auto simp: project_files_files files_of_def filter_map comp_def)

lemma analyze_lists_all_project_files:
  "project_files (analyze_project_structure cfg fs)
     = map (\<lambda>pf. path_str (fst pf @ [fname (snd pf)]))
           (filter (\<lambda>pf. is_project_file (snd pf)) (walk_files cfg fs))"
  by (simp add: analyze_project_structure_def analyze_accumulate_def Let_def project_files_dirs
        walk_files_def empty_analysis_def)

text \<open>
  Claim C5, amended. For a search with \<open>max_results \<ge> 0\<close> the returned results are at
  most \<open>max_results\<close>. When the walk is \<open>ds1 @ (rp, fs1 @ f # fs2) # ds2\<close> and the
  admitted, readable file \<open>f\<close> brings the accumulated matches to \<open>max_results\<close>, the
  traversal is the traversal of the part up to \<open>f\<close>: the files \<open>fs2\<close> and the
  directories \<open>ds2\<close> are not opened. \<open>scan_codebase\<close> and
  \<open>analyze_project_structure\<close> take no \<open>max_results\<close> and go through the whole
  walk: the scan counts every admitted file, the analysis lists every project file.
\<close>

theorem search_cap_and_early_stop:
  "(0 \<le> max_results \<longrightarrow>
      int (length (response_results
        (search_code cfg fs query search_type case_sensitive max_results context_lines)))
      \<le> max_results)
   \<and> (os_walk cfg fs = ds1 @ (rp, fs1 @ f # fs2) # ds2
        \<and> should_include_file cfg f \<and> fcontent f \<noteq> None
        \<and> max_results \<le> int (length (results
             (search_dirs cfg query search_type case_sensitive max_results context_lines
                (ds1 @ [(rp, fs1 @ [f])]) init_state)))
      \<longrightarrow> search_run cfg fs query search_type case_sensitive max_results context_lines
            = search_dirs cfg query search_type case_sensitive max_results context_lines
                (ds1 @ [(rp, fs1 @ [f])]) init_state
          \<and> set (opened
                (search_run cfg fs query search_type case_sensitive max_results context_lines))
            \<subseteq> set (files_of (ds1 @ [(rp, fs1 @ [f])])))
   \<and> (path_exists fs \<longrightarrow>
        (\<exists>r. scan_codebase cfg fs = Inr r
           \<and> total_files_out r
               = length (filter (\<lambda>pf. should_include_file cfg (snd pf)) (walk_files cfg fs))))
   \<and> project_files (analyze_project_structure cfg fs)
       = map (\<lambda>pf. path_str (fst pf @ [fname (snd pf)]))
             (filter (\<lambda>pf. is_project_file (snd pf)) (walk_files cfg fs))"
  using search_code_capped [of max_results cfg fs query search_type case_sensitive context_lines]
    search_run_cut [of cfg fs ds1 rp fs1 f fs2 ds2 max_results query search_type case_sensitive
      context_lines]
    scan_counts_all [of fs cfg] analyze_lists_all_project_files [of cfg fs]
  by blast

text \<open>
  Claim C5 as stated fails for a negative \<open>max_results\<close>: with \<open>max_results = -1\<close> the
  first file's two matches are cut by \<^verbatim>\<open>results[:-1]\<close> to one result, more than
  \<open>max_results\<close>.
\<close>

theorem search_negative_cap_counterexample:
  "length (response_results (search_code bin_cfg three_fs ''Foo'' ''content'' False (- 1) 3)) = 1
   \<and> \<not> int (length (response_results
            (search_code bin_cfg three_fs ''Foo'' ''content'' False (- 1) 3))) \<le> - 1"
  by code_simp


theorem search_cap_and_early_stop_witness:
  "(0::int) \<le> 1
   \<and> os_walk bin_cfg three_fs = [] @ ([], [] @ file_A # [file_B]) # [([''sub''], [file_C])]
   \<and> should_include_file bin_cfg file_A \<and> fcontent file_A \<noteq> None
   \<and> 1 \<le> int (length (results
          (search_dirs bin_cfg ''Foo'' ''content'' False 1 3 ([] @ [([], [] @ [file_A])]) init_state)))
   \<and> path_exists three_fs
   \<and> int (length (response_results (search_code bin_cfg three_fs ''Foo'' ''content'' False 1 3))) \<le> 1
   \<and> set (opened (search_run bin_cfg three_fs ''Foo'' ''content'' False 1 3))
       \<subseteq> set (files_of ([] @ [([], [] @ [file_A])]))
   \<and> (\<exists>r. scan_codebase bin_cfg three_fs = Inr r
          \<and> total_files_out r
              = length (filter (\<lambda>pf. should_include_file bin_cfg (snd pf))
                               (walk_files bin_cfg three_fs)))"
proof -
  have h0: "(0::int) \<le> 1"
    by simp
  have h1: "os_walk bin_cfg three_fs = [] @ ([], [] @ file_A # [file_B]) # [([''sub''], [file_C])]"
    by code_simp
  have h2: "should_include_file bin_cfg file_A"
    by code_simp
  have h3: "fcontent file_A \<noteq> None"
    by (simp add: file_A_def)
  have h4: "1 \<le> int (length (results
          (search_dirs bin_cfg ''Foo'' ''content'' False 1 3 ([] @ [([], [] @ [file_A])]) init_state)))"
    by code_simp
  have h5: "path_exists three_fs"
    by (simp add: path_exists_def three_fs_def)
  from search_cap_and_early_stop [where max_results = 1 and cfg = bin_cfg and fs = three_fs
      and query = "''Foo''" and search_type = "''content''" and case_sensitive = False
      and context_lines = 3 and ?ds1.0 = "[]" and rp = "[]" and ?fs1.0 = "[]" and f = file_A
      and ?fs2.0 = "[file_B]" and ?ds2.0 = "[([''sub''], [file_C])]"]
    h0 h1 h2 h3 h4 h5
  show ?thesis
    by blast
qed

section \<open>The context window\<close>

lemma split_nl_nonempty: "split_nl s \<noteq> []"
  by (induction s) (auto split: list.splits)

lemma drop_take_nth: "b \<le> length xs \<Longrightarrow> drop a (take b xs) = map (nth xs) [a ..< b]"
  by (rule nth_equalityI) auto

lemma slice_is_spec_context:
  assumes "0 \<le> c" and "1 \<le> i" and "i \<le> int (length xs)"
  shows "py_slice xs (max 0 (i - 1 - c)) (min (int (length xs)) (i + c)) = spec_context xs i c"
proof -
  define a where "a = max 0 (i - 1 - c)"
  define b where "b = min (int (length xs)) (i + c)"
  have ab: "0 \<le> a" "a \<le> b" "b \<le> int (length xs)" "1 \<le> b" "max 1 (i - c) = a + 1"
    using assms by (auto simp: a_def b_def)
  have "py_slice xs a b = drop (nat a) (take (nat b) xs)"
    using ab by (simp add: py_slice_def py_index_def min_def)
  also have "\<dots> = map (nth xs) [nat a ..< nat b]"
    using ab by (intro drop_take_nth) simp
  also have "\<dots> = map (\<lambda>k. xs ! nat (k - 1)) [a + 1 .. b]"
  proof (rule nth_equalityI)
    show "length (map (nth xs) [nat a ..< nat b]) = length (map (\<lambda>k. xs ! nat (k - 1)) [a + 1 .. b])"
      using ab by simp
  next
    fix j assume "j < length (map (nth xs) [nat a ..< nat b])"
    then have j: "j < nat b - nat a" by simp
    then have "a + 1 + int j \<le> b" using ab by linarith
    then have "[a + 1 .. b] ! j = a + 1 + int j" by (rule nth_upto)
    moreover have "nat (a + 1 + int j - 1) = nat a + j" using ab by simp
    ultimately show "map (nth xs) [nat a ..< nat b] ! j = map (\<lambda>k. xs ! nat (k - 1)) [a + 1 .. b] ! j"
      using j ab by simp
  qed
  finally show ?thesis
    using ab by (simp add: spec_context_def a_def b_def)
qed

lemma search_lines_record:
  "m \<in> set (search_lines rel ty cs c pats all_lines i ls) \<Longrightarrow>
     i \<le> m_line_number m \<and> m_line_number m < i + int (length ls)
     \<and> m_context m = Some (py_slice all_lines (max 0 (m_line_number m - 1 - c))
                              (min (int (length all_lines)) (m_line_number m + c)))
     \<and> m_context_start_line m = Some (max 0 (m_line_number m - 1 - c) + 1)"
proof (induction ls arbitrary: i)
  case Nil
  then show ?case by simp
next
  case (Cons l ls)
  then show ?case
    by (fastforce simp: Let_def split: if_splits)
qed

lemma filename_match_line:
  "m \<in> set (search_in_file content rp f query ''filename'' case_sensitive context_lines)
   \<Longrightarrow> m_line_number m = 0"
  by (auto simp: search_in_file_def Let_def split: if_splits)

text \<open>
  Claim C6, amended. For a context parameter \<open>c \<ge> 0\<close> and every match at a 1-based line
  number \<open>i\<close> in a file of \<open>L\<close> lines, the context of the record is the lines with
  the 1-based numbers \<open>max 1 (i - c)\<close> to \<open>min L (i + c)\<close> in order, and
  \<open>context_start_line\<close> is \<open>max 1 (i - c)\<close>.
\<close>

theorem context_window:
  assumes "0 \<le> context_lines"
    and "m \<in> set (search_in_file content rp f query search_type case_sensitive context_lines)"
    and "1 \<le> m_line_number m"
  shows "m_line_number m \<le> int (length (split_nl content))
     \<and> m_context m = Some (spec_context (split_nl content) (m_line_number m) context_lines)
     \<and> m_context_start_line m = Some (max 1 (m_line_number m - context_lines))"
proof -
  have "search_type \<noteq> ''filename''"
    using filename_match_line assms(2,3) by fastforce
  with assms(2) have
    "m \<in> set (search_lines (path_str (rp @ [fname f])) search_type case_sensitive context_lines
          (get_search_patterns query search_type) (split_nl content) 1 (split_nl content))"
    by (auto simp: search_in_file_def Let_def split: if_splits)
  from search_lines_record [OF this] have
    r: "m_line_number m \<le> int (length (split_nl content))"
      "m_context m = Some (py_slice (split_nl content) (max 0 (m_line_number m - 1 - context_lines))
                              (min (int (length (split_nl content))) (m_line_number m + context_lines)))"
      "m_context_start_line m = Some (max 0 (m_line_number m - 1 - context_lines) + 1)"
    by auto
  show ?thesis
    using r slice_is_spec_context [OF assms(1) assms(3) r(1)] by auto
qed

text \<open>
  Claim C6 as stated fails for a negative context parameter: with \<open>c = -3\<close> and a match
  on line 1 of ten lines, the end index \<open>min 10 (1 - 3) = -2\<close> counts from the end of
  the list, so the context is the lines 4 to 8, while the lines numbered
  \<open>max 1 4\<close> to \<open>min 10 (-2)\<close> are none.
\<close>

theorem context_negative_counterexample:
  "map m_line_number (search_in_file ten_lines [] ten_file ''match'' ''content'' False (- 3)) = [1]
   \<and> map m_context (search_in_file ten_lines [] ten_file ''match'' ''content'' False (- 3))
       = [Some [''4'', ''5'', ''6'', ''7'', ''8'']]
   \<and> spec_context (split_nl ten_lines) 1 (- 3) = []"
  by code_simp


theorem context_window_witness:
  "(0::int) \<le> 1
   \<and> hd (search_in_file ten_lines [] ten_file ''5'' ''content'' False 1)
       \<in> set (search_in_file ten_lines [] ten_file ''5'' ''content'' False 1)
   \<and> 1 \<le> m_line_number (hd (search_in_file ten_lines [] ten_file ''5'' ''content'' False 1))
   \<and> m_line_number (hd (search_in_file ten_lines [] ten_file ''5'' ''content'' False 1)) = 5
   \<and> m_context (hd (search_in_file ten_lines [] ten_file ''5'' ''content'' False 1))
       = Some [''4'', ''5'', ''6'']
   \<and> m_context_start_line (hd (search_in_file ten_lines [] ten_file ''5'' ''content'' False 1))
       = Some 4"
proof -
  have h1: "(0::int) \<le> 1"
    by simp
  have ne: "search_in_file ten_lines [] ten_file ''5'' ''content'' False 1 \<noteq> []"
    by code_simp
  have h3: "hd (search_in_file ten_lines [] ten_file ''5'' ''content'' False 1)
       \<in> set (search_in_file ten_lines [] ten_file ''5'' ''content'' False 1)"
    using ne by (rule hd_in_set)
  have n: "m_line_number (hd (search_in_file ten_lines [] ten_file ''5'' ''content'' False 1)) = 5"
    by code_simp
  have c: "spec_context (split_nl ten_lines) 5 1 = [''4'', ''5'', ''6'']"
    by code_simp
  have h4: "1 \<le> m_line_number (hd (search_in_file ten_lines [] ten_file ''5'' ''content'' False 1))"
    using n by simp
  from context_window [OF h1 h3 h4] h1 h3 h4 n c show ?thesis
    by simp
qed

section \<open>Skipped folders\<close>

lemma startswith_iff: "startswith s p \<longleftrightarrow> (\<exists>b. s = p @ b)"
  unfolding startswith_def
  by (metis append_eq_conv_conj append_take_drop_id)

lemma py_in_iff: "py_in p s \<longleftrightarrow> (\<exists>a b. s = a @ p @ b)"
proof (induction s)
  case Nil
  show ?case by auto
next
  case (Cons c cs)
  have "(\<exists>a b. c # cs = a @ p @ b) \<longleftrightarrow> (\<exists>b. c # cs = p @ b) \<or> (\<exists>a b. cs = a @ p @ b)"
  proof
    assume "\<exists>a b. c # cs = a @ p @ b"
    then obtain a b where ab: "c # cs = a @ p @ b" by blast
    show "(\<exists>b. c # cs = p @ b) \<or> (\<exists>a b. cs = a @ p @ b)"
    proof (cases a)
      case Nil
      with ab show ?thesis by auto
    next
      case (Cons x a')
      with ab have "cs = a' @ p @ b" by simp
      then show ?thesis by blast
    qed
  next
    assume "(\<exists>b. c # cs = p @ b) \<or> (\<exists>a b. cs = a @ p @ b)"
    then show "\<exists>a b. c # cs = a @ p @ b"
    proof
      assume "\<exists>b. c # cs = p @ b"
      then obtain b where "c # cs = [] @ p @ b" by auto
      then show ?thesis by blast
    next
      assume "\<exists>a b. cs = a @ p @ b"
      then obtain a b where "c # cs = (c # a) @ p @ b" by auto
      then show ?thesis by blast
    qed
  qed
  then show ?case
    using Cons by (simp add: startswith_iff)
qed

lemma skip_iff:
  "should_skip_folder cfg d \<longleftrightarrow> (\<exists>frag \<in> set (skip_folders cfg). \<exists>a b. lower d = a @ lower frag @ b)"
  by (simp add: should_skip_folder_def list_ex_iff py_in_iff)

lemma walk_components:
  "(\<forall>d\<in>set rp. \<not> should_skip_folder cfg d)
     \<Longrightarrow> \<forall>e\<in>set (walk cfg rp dr). \<forall>d\<in>set (fst e). \<not> should_skip_folder cfg d"
  "(\<forall>d\<in>set rp. \<not> should_skip_folder cfg d)
     \<Longrightarrow> \<forall>e\<in>set (walk_subs cfg rp subs). \<forall>d\<in>set (fst e). \<not> should_skip_folder cfg d"
  by (induction cfg rp dr and cfg rp subs rule: walk_walk_subs.induct) auto

lemma walk_files_components:
  "pf \<in> set (walk_files cfg fs) \<Longrightarrow> d \<in> set (fst pf) \<Longrightarrow> \<not> should_skip_folder cfg d"
proof (cases fs)
  case (IsDir dr)
  assume "pf \<in> set (walk_files cfg fs)" and d: "d \<in> set (fst pf)"
  then obtain e where e: "e \<in> set (walk cfg [] dr)" "fst pf = fst e"
    by (auto simp: walk_files_def files_of_def IsDir)
  from walk_components(1) [of "[]" cfg dr] e d show ?thesis by auto
qed (auto simp: walk_files_def files_of_def)

lemma walk_prune:
  "walk cfg rp (prune cfg dr) = walk cfg rp dr"
  "walk_subs cfg rp (prune_subs cfg subs) = walk_subs cfg rp subs"
  by (induction cfg rp dr and cfg rp subs rule: walk_walk_subs.induct) auto

lemma os_walk_prune: "prune cfg d1 = prune cfg d2 \<Longrightarrow> os_walk cfg (IsDir d1) = os_walk cfg (IsDir d2)"
  using walk_prune(1) [of cfg "[]" d1] walk_prune(1) [of cfg "[]" d2] by simp


lemma m_file_search_lines:
  "m \<in> set (search_lines rel ty cs c pats all_lines i ls) \<Longrightarrow> m_file m = rel"
  by (induction ls arbitrary: i) (auto simp: Let_def split: if_splits)

lemma m_file_file_matches:
  "m \<in> set (file_matches q ty cs cx pf) \<Longrightarrow> m_file m = rel_path pf"
  by (auto simp: file_matches_def search_in_file_def rel_path_def Let_def m_file_search_lines
      split: option.splits if_splits)

lemma opened_run: "set (opened (search_run cfg fs q ty cs mx cx)) \<subseteq> set (walk_files cfg fs)"
  using opened_dirs_files_of [of cfg q ty cs mx cx "os_walk cfg fs" "\<lparr> results = [], opened = [] \<rparr>"]
  by (simp add: search_run_def walk_files_def)

lemma set_py_take: "set (py_take xs n) \<subseteq> set xs"
  by (simp add: py_take_def set_take_subset)

lemma search_results_from_walk:
  assumes "m \<in> set (response_results (search_code cfg fs q ty cs mx cx))"
  shows "\<exists>pf \<in> set (walk_files cfg fs). m_file m = rel_path pf"
proof -
  from assms have "m \<in> set (results (search_run cfg fs q ty cs mx cx))"
    using set_py_take by (fastforce simp: search_code_def Let_def)
  then obtain pf where pf: "pf \<in> set (opened (search_run cfg fs q ty cs mx cx))"
      "m \<in> set (file_matches q ty cs cx pf)"
    by (auto simp: results_run [of cfg fs q ty cs mx cx])
  with opened_run [of cfg fs q ty cs mx cx] m_file_file_matches [OF pf(2)] show ?thesis
    by auto
qed

lemma listed_summary_add:
  "listed (summary_add ext p s) = insert p (listed s)"
  unfolding listed_def by (induction ext p s rule: summary_add.induct) auto

lemma listed_scan_files:
  "p \<in> listed (file_summary (scan_files cfg rp fs st))
   \<Longrightarrow> p \<in> listed (file_summary st) \<or> (\<exists>f \<in> set fs. p = rel_path (rp, f))"
proof (induction fs arbitrary: st)
  case Nil
  then show ?case by simp
next
  case (Cons f fs)
  from Cons.IH [OF Cons.prems [simplified]] show ?case
    by (auto simp: listed_summary_add rel_path_def split: if_splits)
qed

lemma listed_scan_dirs:
  "p \<in> listed (file_summary (scan_dirs cfg ds st))
   \<Longrightarrow> p \<in> listed (file_summary st) \<or> (\<exists>pf \<in> set (files_of ds). p = rel_path pf)"
proof (induction ds arbitrary: st)
  case Nil
  then show ?case by simp
next
  case (Cons d ds)
  obtain rp fs where d: "d = (rp, fs)" by (cases d)
  from Cons.IH [of "scan_files cfg rp fs st"] Cons.prems
  have "p \<in> listed (file_summary (scan_files cfg rp fs st))
        \<or> (\<exists>pf \<in> set (files_of ds). p = rel_path pf)"
    by (simp add: d)
  then show ?case
    using listed_scan_files [of p cfg rp fs st] by (auto simp: d set_files_of)
qed

lemma listed_paths_scan:
  "p \<in> listed_paths (scan_codebase cfg fs) \<Longrightarrow> \<exists>pf \<in> set (walk_files cfg fs). p = rel_path pf"
  using listed_scan_dirs [of p cfg "os_walk cfg fs" "\<lparr> file_summary = [], total_files = 0 \<rparr>"]
  by (auto simp: scan_codebase_def Let_def walk_files_def listed_def split: if_splits)

lemma methods_line_file:
  "m \<in> set (methods (analyze_line p l a)) \<Longrightarrow> m \<in> set (methods a) \<or> method_file m = p"
  by (auto simp: analyze_line_def Let_def split: option.splits if_splits)

lemma methods_lines_file:
  "m \<in> set (methods (analyze_lines p ls a)) \<Longrightarrow> m \<in> set (methods a) \<or> method_file m = p"
  by (induction ls arbitrary: a) (auto dest: methods_line_file)

lemma methods_files_file:
  "m \<in> set (methods (analyze_files rp fs a))
   \<Longrightarrow> m \<in> set (methods a) \<or> (\<exists>f \<in> set fs. method_file m = rel_path (rp, f))"
proof (induction fs arbitrary: a)
  case Nil
  then show ?case by simp
next
  case (Cons f fs)
  from Cons.IH [OF Cons.prems [simplified]] show ?case
    by (auto simp: analyze_cs_file_def rel_path_def split: if_splits option.splits
        dest: methods_lines_file)
qed

lemma methods_dirs_file:
  "m \<in> set (methods (analyze_dirs ds a))
   \<Longrightarrow> m \<in> set (methods a) \<or> (\<exists>pf \<in> set (files_of ds). method_file m = rel_path pf)"
proof (induction ds arbitrary: a)
  case Nil
  then show ?case by simp
next
  case (Cons d ds)
  obtain rp fs where d: "d = (rp, fs)" by (cases d)
  from Cons.IH [of "analyze_files rp fs a"] Cons.prems
  have "m \<in> set (methods (analyze_files rp fs a))
        \<or> (\<exists>pf \<in> set (files_of ds). method_file m = rel_path pf)"
    by (simp add: d)
  then show ?case
    using methods_files_file [of m rp fs a] by (auto simp: d set_files_of)
qed

lemma analyze_methods_from_walk:
  assumes "m \<in> set (methods (analyze_project_structure cfg fs))"
  shows "\<exists>pf \<in> set (walk_files cfg fs). method_file m = rel_path pf"
proof -
  from assms have "m \<in> set (methods (analyze_accumulate cfg fs))"
    using set_py_take by (fastforce simp: analyze_project_structure_def Let_def)
  then show ?thesis
    using methods_dirs_file [of m "os_walk cfg fs" empty_analysis]
    by (auto simp: analyze_accumulate_def walk_files_def empty_analysis_def)
qed

lemma analyze_project_files_from_walk:
  "p \<in> set (project_files (analyze_project_structure cfg fs))
   \<Longrightarrow> \<exists>pf \<in> set (walk_files cfg fs). p = rel_path pf"
  by (auto simp: analyze_lists_all_project_files rel_path_def)

lemma prune_same_results:
  assumes "prune cfg d1 = prune cfg d2"
  shows "scan_codebase cfg (IsDir d1) = scan_codebase cfg (IsDir d2)"
    and "search_code cfg (IsDir d1) q ty cs mx cx = search_code cfg (IsDir d2) q ty cs mx cx"
    and "analyze_project_structure cfg (IsDir d1) = analyze_project_structure cfg (IsDir d2)"
  using os_walk_prune [OF assms]
  by (simp_all add: scan_codebase_def path_exists_def search_code_def search_run_def
      analyze_project_structure_def analyze_accumulate_def)

text \<open>
  Claim C4. For every configured skip fragment, no file the walk reaches lies under a
  directory whose lower-cased name contains the lower-cased fragment; every path a scan
  lists, every file of a search match, every file of an analysed method and every project
  file is the path of a file the walk reaches; and two roots that differ only under such
  directories give the same scan, search and analysis. In the scenario, with the skip
  fragment \<^verbatim>\<open>bin\<close>, the analysis has the namespaces \<open>{App.Models}\<close> and the classes
  \<open>{Foo}\<close>, and not \<^verbatim>\<open>Bar\<close>.
\<close>

theorem skipped_folders_never_contribute:
  "(\<forall>frag \<in> set (skip_folders cfg). \<forall>pf \<in> set (walk_files cfg fs). \<forall>d \<in> set (fst pf).
      \<not> (\<exists>a b. lower d = a @ lower frag @ b))
   \<and> (\<forall>p \<in> listed_paths (scan_codebase cfg fs). \<exists>pf \<in> set (walk_files cfg fs). p = rel_path pf)
   \<and> (\<forall>m \<in> set (response_results
          (search_code cfg fs query search_type case_sensitive max_results context_lines)).
        \<exists>pf \<in> set (walk_files cfg fs). m_file m = rel_path pf)
   \<and> (\<forall>m \<in> set (methods (analyze_project_structure cfg fs)).
        \<exists>pf \<in> set (walk_files cfg fs). method_file m = rel_path pf)
   \<and> (\<forall>p \<in> set (project_files (analyze_project_structure cfg fs)).
        \<exists>pf \<in> set (walk_files cfg fs). p = rel_path pf)
   \<and> (prune cfg d1 = prune cfg d2 \<longrightarrow>
        scan_codebase cfg (IsDir d1) = scan_codebase cfg (IsDir d2)
        \<and> search_code cfg (IsDir d1) query search_type case_sensitive max_results context_lines
            = search_code cfg (IsDir d2) query search_type case_sensitive max_results context_lines
        \<and> analyze_project_structure cfg (IsDir d1) = analyze_project_structure cfg (IsDir d2))
   \<and> set (namespaces (analyze_project_structure bin_cfg scenario_fs)) = {''App.Models''}
   \<and> set (classes (analyze_project_structure bin_cfg scenario_fs)) = {''Foo''}
   \<and> ''Bar'' \<notin> set (classes (analyze_project_structure bin_cfg scenario_fs))"
proof -
  have a: "\<forall>frag \<in> set (skip_folders cfg). \<forall>pf \<in> set (walk_files cfg fs). \<forall>d \<in> set (fst pf).
      \<not> (\<exists>a b. lower d = a @ lower frag @ b)"
    using walk_files_components [of _ cfg fs] skip_iff [of cfg] by blast
  have b: "\<forall>p \<in> listed_paths (scan_codebase cfg fs). \<exists>pf \<in> set (walk_files cfg fs). p = rel_path pf"
    using listed_paths_scan [of _ cfg fs] by blast
  have c: "namespaces (analyze_project_structure bin_cfg scenario_fs) = [''App.Models'']"
    by code_simp
  have d: "classes (analyze_project_structure bin_cfg scenario_fs) = [''Foo'']"
    by code_simp
  have e: "prune cfg d1 = prune cfg d2 \<longrightarrow>
        scan_codebase cfg (IsDir d1) = scan_codebase cfg (IsDir d2)
        \<and> search_code cfg (IsDir d1) query search_type case_sensitive max_results context_lines
            = search_code cfg (IsDir d2) query search_type case_sensitive max_results context_lines
        \<and> analyze_project_structure cfg (IsDir d1) = analyze_project_structure cfg (IsDir d2)"
    using prune_same_results by blast
  show ?thesis
    using a b e search_results_from_walk [of _ cfg fs query search_type case_sensitive max_results
        context_lines]
      analyze_methods_from_walk [of _ cfg fs] analyze_project_files_from_walk [of _ cfg fs]
    by (simp add: c d)
qed


theorem skipped_folders_never_contribute_witness:
  "''bin'' \<in> set (skip_folders bin_cfg)
   \<and> ([''src''], svc_file) \<in> set (walk_files bin_cfg (IsDir project_dir))
   \<and> ''src'' \<in> set (fst ([''src''], svc_file))
   \<and> \<not> (\<exists>a b. lower ''src'' = a @ lower ''bin'' @ b)
   \<and> ''src/Svc.cs'' \<in> listed_paths (scan_codebase bin_cfg (IsDir project_dir))
   \<and> ''src/Svc.cs'' \<in> rel_path ` set (walk_files bin_cfg (IsDir project_dir))
   \<and> hd (response_results (search_code bin_cfg (IsDir project_dir) ''Run'' ''method'' False 20 3))
       \<in> set (response_results (search_code bin_cfg (IsDir project_dir) ''Run'' ''method'' False 20 3))
   \<and> m_file (hd (response_results
         (search_code bin_cfg (IsDir project_dir) ''Run'' ''method'' False 20 3)))
       \<in> rel_path ` set (walk_files bin_cfg (IsDir project_dir))
   \<and> svc_method \<in> set (methods (analyze_project_structure bin_cfg (IsDir project_dir)))
   \<and> method_file svc_method \<in> rel_path ` set (walk_files bin_cfg (IsDir project_dir))
   \<and> ''App.csproj'' \<in> set (project_files (analyze_project_structure bin_cfg (IsDir project_dir)))
   \<and> ''App.csproj'' \<in> rel_path ` set (walk_files bin_cfg (IsDir project_dir))
   \<and> prune bin_cfg project_dir = prune bin_cfg project_clean
   \<and> scan_codebase bin_cfg (IsDir project_dir) = scan_codebase bin_cfg (IsDir project_clean)
   \<and> search_code bin_cfg (IsDir project_dir) ''Run'' ''method'' False 20 3
       = search_code bin_cfg (IsDir project_clean) ''Run'' ''method'' False 20 3
   \<and> analyze_project_structure bin_cfg (IsDir project_dir)
       = analyze_project_structure bin_cfg (IsDir project_clean)"
proof -
  have h1: "''bin'' \<in> set (skip_folders bin_cfg)"
    by code_simp
  have h2: "([''src''], svc_file) \<in> set (walk_files bin_cfg (IsDir project_dir))"
    by code_simp
  have h3: "''src'' \<in> set (fst ([''src''], svc_file))"
    by simp
  have h4: "''src/Svc.cs'' \<in> listed_paths (scan_codebase bin_cfg (IsDir project_dir))"
    by code_simp
  have "response_results (search_code bin_cfg (IsDir project_dir) ''Run'' ''method'' False 20 3) \<noteq> []"
    by code_simp
  then have h5: "hd (response_results (search_code bin_cfg (IsDir project_dir) ''Run'' ''method'' False 20 3))
       \<in> set (response_results (search_code bin_cfg (IsDir project_dir) ''Run'' ''method'' False 20 3))"
    by (rule hd_in_set)
  have an: "analyze_project_structure bin_cfg (IsDir project_dir)
      = \<lparr> namespaces = [], classes = [], interfaces = [], methods = [svc_method],
          using_statements = [], project_files = [''App.csproj''] \<rparr>"
    by code_simp
  have h6: "svc_method \<in> set (methods (analyze_project_structure bin_cfg (IsDir project_dir)))"
    by (simp add: an)
  have h7: "''App.csproj'' \<in> set (project_files (analyze_project_structure bin_cfg (IsDir project_dir)))"
    by (simp add: an)
  have h8: "prune bin_cfg project_dir = prune bin_cfg project_clean"
    by code_simp
  note T = skipped_folders_never_contribute [where cfg = bin_cfg and fs = "IsDir project_dir"
      and ?d1.0 = project_dir and ?d2.0 = project_clean and query = "''Run''"
      and search_type = "''method''" and case_sensitive = False and max_results = 20
      and context_lines = 3]
  note t1 = conjunct1 [OF T]
  note t2 = conjunct1 [OF conjunct2 [OF T]]
  note t3 = conjunct1 [OF conjunct2 [OF conjunct2 [OF T]]]
  note t4 = conjunct1 [OF conjunct2 [OF conjunct2 [OF conjunct2 [OF T]]]]
  note t5 = conjunct1 [OF conjunct2 [OF conjunct2 [OF conjunct2 [OF conjunct2 [OF T]]]]]
  note t6 = conjunct1 [OF conjunct2 [OF conjunct2 [OF conjunct2 [OF conjunct2 [OF conjunct2 [OF T]]]]]]
  have c1: "\<not> (\<exists>a b. lower ''src'' = a @ lower ''bin'' @ b)"
    using t1 h1 h2 h3 by blast
  have c2: "''src/Svc.cs'' \<in> rel_path ` set (walk_files bin_cfg (IsDir project_dir))"
    using t2 h4 by blast
  have c3: "m_file (hd (response_results
         (search_code bin_cfg (IsDir project_dir) ''Run'' ''method'' False 20 3)))
       \<in> rel_path ` set (walk_files bin_cfg (IsDir project_dir))"
    using t3 h5 by blast
  have c4: "method_file svc_method \<in> rel_path ` set (walk_files bin_cfg (IsDir project_dir))"
    using t4 h6 by blast
  have c5: "''App.csproj'' \<in> rel_path ` set (walk_files bin_cfg (IsDir project_dir))"
    using t5 h7 by blast
  note c6 = mp [OF t6 h8]
  show ?thesis
    using h1 h2 h3 h4 h5 h6 h7 h8 c1 c2 c3 c4 c5 c6 by (intro conjI) (simp_all only: simp_thms)
qed

section \<open>The class mode\<close>

lemma rtry_iff:
  "(rtry ic s a as i es \<noteq> None) = (\<exists>e \<in> set es. rmatch ic s as e \<noteq> None)"
  by (induction es) (auto split: option.splits)

lemma matches_at_Nil: "matches_at ic s [] i"
  by (simp add: matches_at_def)

lemma matches_at_Cons:
  "matches_at ic s (a # as) i = (\<exists>e \<in> set (atom_ends ic s i a). matches_at ic s as e)"
  unfolding matches_at_def rmatch.simps by (rule rtry_iff)

lemma set_ends_Plus: "set (atom_ends ic s i (Plus c)) = {j. i < j \<and> j \<le> i + cspan c s i}"
  by auto

lemma set_ends_Lit: "set (atom_ends ic s i (Lit l)) = (if lit_at ic s i l then {i + length l} else {})"
  by simp

lemma set_ends_WordB: "set (atom_ends ic s i WordB) = (if word_boundary s i then {i} else {})"
  by simp

lemma le_length_takeWhile:
  "(n \<le> length (takeWhile P xs)) = (n \<le> length xs \<and> (\<forall>k < n. P (xs ! k)))"
proof (induction xs arbitrary: n)
  case Nil
  show ?case by auto
next
  case (Cons x xs)
  show ?case
  proof (cases n)
    case 0
    then show ?thesis by simp
  next
    case (Suc m)
    show ?thesis
      using Cons [of m] by (auto simp: Suc less_Suc_eq_0_disj)
  qed
qed

lemma span_iff:
  assumes "p < e"
  shows "(e \<le> p + cspan c s p)
         = (e \<le> length s \<and> (\<forall>k. p \<le> k \<and> k < e \<longrightarrow> in_class c (s ! k)))"
proof -
  have "(e \<le> p + cspan c s p) = (e - p \<le> length (takeWhile (in_class c) (drop p s)))"
    using assms by (auto simp: cspan_def)
  also have "\<dots> = (e - p \<le> length (drop p s) \<and> (\<forall>k < e - p. in_class c (drop p s ! k)))"
    by (rule le_length_takeWhile)
  also have "\<dots> = (e \<le> length s \<and> (\<forall>k. p \<le> k \<and> k < e \<longrightarrow> in_class c (s ! k)))"
  proof (cases "e \<le> length s")
    case False
    then show ?thesis using assms by auto
  next
    case True
    have "(\<forall>k < e - p. in_class c (drop p s ! k)) = (\<forall>k. p \<le> k \<and> k < e \<longrightarrow> in_class c (s ! k))"
    proof
      assume h: "\<forall>k < e - p. in_class c (drop p s ! k)"
      show "\<forall>k. p \<le> k \<and> k < e \<longrightarrow> in_class c (s ! k)"
      proof (intro allI impI)
        fix k assume k: "p \<le> k \<and> k < e"
        then have "in_class c (drop p s ! (k - p))" using h by auto
        then show "in_class c (s ! k)" using k True by simp
      qed
    next
      assume h: "\<forall>k. p \<le> k \<and> k < e \<longrightarrow> in_class c (s ! k)"
      show "\<forall>k < e - p. in_class c (drop p s ! k)"
      proof (intro allI impI)
        fix k assume k: "k < e - p"
        then have "in_class c (s ! (p + k))" using h by auto
        then show "in_class c (drop p s ! k)" using k True by simp
      qed
    qed
    then show ?thesis using True assms by auto
  qed
  finally show ?thesis .
qed

lemma class_pattern_iff:
  "matches_at ic s [WordB, Lit kw, Plus SpaceC, Lit q, WordB] i
   = (word_boundary s i \<and> lit_at ic s i kw
      \<and> (\<exists>j. i + length kw < j \<and> j \<le> length s
            \<and> (\<forall>k. i + length kw \<le> k \<and> k < j \<longrightarrow> is_space (s ! k))
            \<and> lit_at ic s j q \<and> word_boundary s (j + length q)))"
proof -
  have "matches_at ic s [WordB, Lit kw, Plus SpaceC, Lit q, WordB] i
     = (word_boundary s i \<and> lit_at ic s i kw
        \<and> (\<exists>j. i + length kw < j \<and> j \<le> i + length kw + cspan SpaceC s (i + length kw)
              \<and> lit_at ic s j q \<and> word_boundary s (j + length q)))"
    unfolding matches_at_Cons set_ends_Plus set_ends_Lit set_ends_WordB
    by (auto simp: matches_at_Nil)
  also have "\<dots> = (word_boundary s i \<and> lit_at ic s i kw
      \<and> (\<exists>j. i + length kw < j \<and> j \<le> length s
            \<and> (\<forall>k. i + length kw \<le> k \<and> k < j \<longrightarrow> is_space (s ! k))
            \<and> lit_at ic s j q \<and> word_boundary s (j + length q)))"
    using span_iff [of "i + length kw" _ SpaceC s] by auto
  finally show ?thesis .
qed


lemma re_search_iff: "re_search ic r s = (\<exists>i \<le> length s. matches_at ic s r i)"
proof -
  have "set [0 ..< Suc (length s)] = {i. i \<le> length s}"
    by auto
  then show ?thesis
    unfolding re_search_def matches_at_def list_ex_iff by blast
qed

lemma lit_at_bound: "lit_at ic s i l \<Longrightarrow> l \<noteq> [] \<Longrightarrow> i < length s"
proof (rule ccontr)
  assume l: "lit_at ic s i l" and ne: "l \<noteq> []" and "\<not> i < length s"
  then have "take (length l) (drop i s) = []" by simp
  with l have "l = []" by (auto simp: lit_at_def lower_def split: if_splits)
  with ne show False by simp
qed

lemma class_pattern_search:
  assumes "kw \<noteq> []"
  shows "re_search ic [WordB, Lit kw, Plus SpaceC, Lit q, WordB] s
     = (\<exists>i j. word_boundary s i \<and> lit_at ic s i kw
            \<and> i + length kw < j \<and> j \<le> length s
            \<and> (\<forall>k. i + length kw \<le> k \<and> k < j \<longrightarrow> is_space (s ! k))
            \<and> lit_at ic s j q \<and> word_boundary s (j + length q))"
  (is "?L = ?R")
proof
  assume ?L
  then show ?R
    unfolding re_search_iff class_pattern_iff by blast
next
  assume ?R
  then obtain i j where ij: "word_boundary s i" "lit_at ic s i kw"
      "i + length kw < j \<and> j \<le> length s
            \<and> (\<forall>k. i + length kw \<le> k \<and> k < j \<longrightarrow> is_space (s ! k))
            \<and> lit_at ic s j q \<and> word_boundary s (j + length q)"
    by blast
  from lit_at_bound [OF ij(2) assms] have "i \<le> length s" by simp
  with ij show ?L
    unfolding re_search_iff class_pattern_iff by blast
qed

lemma class_line_iff:
  "list_ex (\<lambda>pattern. re_search (\<not> case_sensitive) pattern line) (get_search_patterns query ''class'')
   = spec_class_line case_sensitive query line"
  by (simp add: get_search_patterns_def class_pattern_search spec_class_line_def class_keywords_def)

lemma search_lines_numbers:
  "(\<exists>m \<in> set (search_lines rel ty cs c pats all_lines i ls). m_line_number m = n)
   = (\<exists>k < length ls. n = i + int k \<and> list_ex (\<lambda>pattern. re_search (\<not> cs) pattern (ls ! k)) pats)"
proof (induction ls arbitrary: i)
  case Nil
  show ?case by simp
next
  case (Cons l ls)
  have "(\<exists>k < length (l # ls). n = i + int k \<and> list_ex (\<lambda>pattern. re_search (\<not> cs) pattern ((l # ls) ! k)) pats)
      = ((n = i \<and> list_ex (\<lambda>pattern. re_search (\<not> cs) pattern l) pats)
         \<or> (\<exists>k < length ls. n = i + 1 + int k \<and> list_ex (\<lambda>pattern. re_search (\<not> cs) pattern (ls ! k)) pats))"
    by (auto simp: less_Suc_eq_0_disj)
  then show ?case
    using Cons [of "i + 1"] by (auto simp: Let_def)
qed

text \<open>
  Claim C3, amended. In class mode the line with the 1-based number \<open>k + 1\<close> is reported
  exactly when it has one of the keywords \<^verbatim>\<open>class\<close>, \<^verbatim>\<open>interface\<close>, \<^verbatim>\<open>struct\<close>,
  \<^verbatim>\<open>enum\<close> at a word boundary, immediately followed by whitespace and then the literal
  query ending at a word boundary. So the line \<^verbatim>\<open>public interface IUserRepository\<close>
  matches the query \<^verbatim>\<open>IUserRepository\<close> and does not match the query
  \<^verbatim>\<open>Repository\<close>, and the line \<^verbatim>\<open>var myRepository = new Thing();\<close> does not match
  the query \<^verbatim>\<open>Repository\<close>.
\<close>

theorem class_mode_matches:
  "((\<exists>m \<in> set (search_in_file content rp f query ''class'' case_sensitive context_lines).
        m_line_number m = int k + 1)
      = (k < length (split_nl content)
         \<and> spec_class_line case_sensitive query (split_nl content ! k)))
   \<and> search_in_file ''public interface IUserRepository'' [] repo_file ''IUserRepository''
         ''class'' False 3 \<noteq> []
   \<and> search_in_file ''public interface IUserRepository'' [] repo_file ''Repository''
         ''class'' False 3 = []
   \<and> search_in_file ''var myRepository = new Thing();'' [] thing_file ''Repository''
         ''class'' False 3 = []"
proof -
  have a: "(\<exists>m \<in> set (search_in_file content rp f query ''class'' case_sensitive context_lines).
        m_line_number m = int k + 1)
      = (k < length (split_nl content)
         \<and> spec_class_line case_sensitive query (split_nl content ! k))"
  proof -
    have sif: "search_in_file content rp f query ''class'' case_sensitive context_lines
        = search_lines (path_str (rp @ [fname f])) ''class'' case_sensitive context_lines
            (get_search_patterns query ''class'') (split_nl content) 1 (split_nl content)"
      by (simp add: search_in_file_def Let_def)
    show ?thesis
      unfolding sif search_lines_numbers class_line_iff by auto
  qed
  have b: "search_in_file ''public interface IUserRepository'' [] repo_file ''IUserRepository''
         ''class'' False 3 \<noteq> []"
    by code_simp
  have c: "search_in_file ''public interface IUserRepository'' [] repo_file ''Repository''
         ''class'' False 3 = []"
    by code_simp
  have d: "search_in_file ''var myRepository = new Thing();'' [] thing_file ''Repository''
         ''class'' False 3 = []"
    by code_simp
  from a b c d show ?thesis by blast
qed

text \<open>
  Claim C3 as stated fails in its scenario: the search for \<^verbatim>\<open>Repository\<close> in class mode
  over a root with the two files of the scenario has no match, although one file contains
  the line \<^verbatim>\<open>public interface IUserRepository\<close>.
\<close>

theorem class_mode_scenario_counterexample:
  "response_total (search_code bin_cfg repo_fs ''Repository'' ''class'' False 20 3) = Some 0
   \<and> response_results (search_code bin_cfg repo_fs ''Repository'' ''class'' False 20 3) = []"
  by code_simp


theorem class_mode_matches_witness:
  "hd (search_in_file ''public interface IUserRepository'' [] repo_file ''IUserRepository''
         ''class'' False 3)
     \<in> set (search_in_file ''public interface IUserRepository'' [] repo_file ''IUserRepository''
         ''class'' False 3)
   \<and> m_line_number (hd (search_in_file ''public interface IUserRepository'' [] repo_file
         ''IUserRepository'' ''class'' False 3)) = int 0 + 1
   \<and> 0 < length (split_nl ''public interface IUserRepository'')
   \<and> spec_class_line False ''IUserRepository'' (split_nl ''public interface IUserRepository'' ! 0)"
proof -
  note T = class_mode_matches [where content = "''public interface IUserRepository''"
      and rp = "[]" and f = repo_file and query = "''IUserRepository''"
      and case_sensitive = False and context_lines = 3 and k = 0]
  from T have ne: "search_in_file ''public interface IUserRepository'' [] repo_file
      ''IUserRepository'' ''class'' False 3 \<noteq> []"
    by (rule conjunct1 [OF conjunct2])
  then have h: "hd (search_in_file ''public interface IUserRepository'' [] repo_file ''IUserRepository''
         ''class'' False 3)
     \<in> set (search_in_file ''public interface IUserRepository'' [] repo_file ''IUserRepository''
         ''class'' False 3)"
    by (rule hd_in_set)
  have n: "m_line_number (hd (search_in_file ''public interface IUserRepository'' [] repo_file
         ''IUserRepository'' ''class'' False 3)) = int 0 + 1"
    by code_simp
  from h n have "\<exists>m \<in> set (search_in_file ''public interface IUserRepository'' [] repo_file
      ''IUserRepository'' ''class'' False 3). m_line_number m = int 0 + 1"
    by blast
  with conjunct1 [OF T] have "0 < length (split_nl ''public interface IUserRepository'')
      \<and> spec_class_line False ''IUserRepository'' (split_nl ''public interface IUserRepository'' ! 0)"
    by (rule iffD1)
  with h n show ?thesis
    by (intro conjI) (simp_all only: simp_thms)
qed

end
